theory Spec2Isabelle
  imports Main "HOL-Library.Sublist" "HOL-Library.AList"
begin

text \<open>
  A model of \<open>create-frontend-setup\<close>: \<open>src/scaffold.mjs\<close>, which checks the target
  directory, runs the Vite generator and the package manager as child processes, and
  writes a fixed tree of folders and files, and \<open>bin/cli.mjs\<close>, which turns the outcome
  into an exit status. The file system is an association list from paths to nodes, an
  awaited call is a function on it that also returns the events it produced, and what
  the program cannot decide (what a child process does, and whether the operating system
  refuses to create a directory or to write a file) is a parameter, the environment.
\<close>

section \<open>Paths: the part of node:path that scaffold.mjs uses (POSIX)\<close>

text \<open>
  An absolute, normalised path is the list of its segments from the root; the root itself
  is the empty list. \<open>process.cwd()\<close> is such a path. Path arguments written by the
  program (\<open>appName\<close>, the literals handed to \<open>path.join\<close>) are strings and are
  split at the slash.
\<close>

type_synonym path = "string list"

fun split_slash :: "string \<Rightarrow> string \<Rightarrow> string list" where
  "split_slash acc [] = [rev acc]"
| "split_slash acc (c # cs) =
     (if c = CHR ''/'' then rev acc # split_slash [] cs else split_slash (c # acc) cs)"

definition segments :: "string \<Rightarrow> string list" where
  "segments s = split_slash [] s"

definition norm_step :: "path \<Rightarrow> string \<Rightarrow> path" where
  "norm_step p s =
     (if s = [] \<or> s = ''.'' then p else if s = ''..'' then butlast p else p @ [s])"

definition isAbsolute :: "string \<Rightarrow> bool" where
  "isAbsolute s = (case s of [] \<Rightarrow> False | c # _ \<Rightarrow> c = CHR ''/'')"

definition path_resolve :: "path \<Rightarrow> string \<Rightarrow> path" where
  "path_resolve cwd name =
     foldl norm_step (if isAbsolute name then [] else cwd) (segments name)"

definition path_join :: "path \<Rightarrow> string list \<Rightarrow> path" where
  "path_join base parts = foldl norm_step base (concat (map segments parts))"

definition render_path :: "path \<Rightarrow> string" where
  "render_path p = (if p = [] then ''/'' else concat (map (\<lambda>s. CHR ''/'' # s) p))"

section \<open>Errors\<close>

datatype child_exit = Exited nat | Signalled string | SpawnFailed string

fun failed :: "child_exit \<Rightarrow> bool" where
  "failed (Exited n) = (n \<noteq> 0)"
| "failed (Signalled s) = True"
| "failed (SpawnFailed c) = True"

text \<open>
  \<open>Error m\<close> is a JavaScript \<open>Error\<close> made by the program itself; \<open>Errno code call p\<close> is
  what a file-system call rejects with; \<open>ExecaError cmd args x\<close> is what execa rejects
  with when the child did not exit with status 0. The messages of the last two are made
  by Node and by execa: Node's starts with the error code and names the call and the
  path, execa's starts with \<open>Command failed\<close> and names the command. Their exact
  wording is not the program's; what is used of them is that they are not empty.
\<close>

datatype error =
    Error string
  | Errno string string path
  | ExecaError string "string list" child_exit

fun message :: "error \<Rightarrow> string" where
  "message (Error m) = m"
| "message (Errno code call p) = code @ '': '' @ call @ '' '' @ render_path p"
| "message (ExecaError cmd args x) =
     ''Command failed: '' @ cmd @ concat (map (\<lambda>a. CHR '' '' # a) args)"

section \<open>The file system and the calls made on it\<close>

datatype node = File string | Dir

type_synonym filesystem = "(path \<times> node) list"

definition lookup :: "filesystem \<Rightarrow> path \<Rightarrow> node option" where
  "lookup fs p = (if p = [] then Some Dir else map_of fs p)"

definition entries :: "filesystem \<Rightarrow> path \<Rightarrow> string list" where
  "entries fs p =
     remdups (map last (filter (\<lambda>q. q \<noteq> [] \<and> butlast q = p) (map fst fs)))"

datatype call =
    PathExists path
  | Readdir path
  | Mkdirp path
  | WriteFile path string
  | Execa string "string list" path
  | ConsoleLog string
  | ConsoleError string

text \<open>
  An event is a call together with how it settled: \<open>None\<close> when it was fulfilled,
  \<open>Some e\<close> when it was rejected with \<open>e\<close>. An awaited operation maps the file system
  to its result, the file system it leaves, and the events it produced.
\<close>

type_synonym event = "call \<times> error option"

type_synonym 'a io = "filesystem \<Rightarrow> (error + 'a) \<times> filesystem \<times> event list"

definition ret :: "'a \<Rightarrow> 'a io" where
  "ret x fs = (Inr x, fs, [])"

definition throw :: "error \<Rightarrow> 'a io" where
  "throw e fs = (Inl e, fs, [])"

definition bnd :: "'a io \<Rightarrow> ('a \<Rightarrow> 'b io) \<Rightarrow> 'b io" where
  "bnd m k fs =
     (case m fs of
        (Inl e, fs1, ev1) \<Rightarrow> (Inl e, fs1, ev1)
      | (Inr x, fs1, ev1) \<Rightarrow>
          (case k x fs1 of (r, fs2, ev2) \<Rightarrow> (r, fs2, ev1 @ ev2)))"

text \<open>A run of statements \<open>await a; await b; ...\<close>: the first rejection ends it.\<close>

fun seq :: "unit io list \<Rightarrow> unit io" where
  "seq [] = ret ()"
| "seq (m # ms) = bnd m (\<lambda>_. seq ms)"

text \<open>
  \<open>await Promise.all([a, b, ...])\<close>: every element of the array has been started when
  the array is built, so each one acts on the file system whether or not another one is
  rejected; the await is rejected with the first rejection. The calls are taken in the
  order of the array.
\<close>

fun promiseAll :: "unit io list \<Rightarrow> unit io" where
  "promiseAll [] fs = (Inr (), fs, [])"
| "promiseAll (m # ms) fs =
     (case m fs of (r, fs1, ev1) \<Rightarrow>
        (case promiseAll ms fs1 of (r', fs2, ev2) \<Rightarrow>
           ((case r of Inl e \<Rightarrow> Inl e | Inr _ \<Rightarrow> r'), fs2, ev1 @ ev2)))"

definition pathExists :: "path \<Rightarrow> bool io" where
  "pathExists p fs = (Inr (lookup fs p \<noteq> None), fs, [(PathExists p, None)])"

definition readdir :: "path \<Rightarrow> (string list) io" where
  "readdir p fs =
     (case lookup fs p of
        Some Dir \<Rightarrow> (Inr (entries fs p), fs, [(Readdir p, None)])
      | Some (File c) \<Rightarrow>
          (Inl (Errno ''ENOTDIR'' ''scandir'' p), fs,
           [(Readdir p, Some (Errno ''ENOTDIR'' ''scandir'' p))])
      | None \<Rightarrow>
          (Inl (Errno ''ENOENT'' ''scandir'' p), fs,
           [(Readdir p, Some (Errno ''ENOENT'' ''scandir'' p))]))"

definition ancestors :: "path \<Rightarrow> path list" where
  "ancestors p = map (\<lambda>k. take k p) [1..<Suc (length p)]"

definition is_file :: "node option \<Rightarrow> bool" where
  "is_file n = (case n of Some (File c) \<Rightarrow> True | _ \<Rightarrow> False)"

definition mkdir_missing :: "filesystem \<Rightarrow> path \<Rightarrow> filesystem" where
  "mkdir_missing fs q = (if lookup fs q = None then fs @ [(q, Dir)] else fs)"

text \<open>
  What the program cannot decide is given by the environment: what a child process
  does to the file system and how it exits (a function of the command, its arguments,
  its working directory and the file system it finds), and whether the operating system
  refuses to create a directory or to write a file for a reason that the file system
  of the model does not show (a name that is too long, missing permission, a read-only
  or full disk). A refused \<open>mkdirp\<close> comes with the error code and with the number
  of ancestors that were created before the refusal; a refused \<open>writeFile\<close> comes with
  the error code and, when the file was opened before the refusal, with the content
  that was left in it.
\<close>

type_synonym child_env =
  "string \<Rightarrow> string list \<Rightarrow> path \<Rightarrow> filesystem \<Rightarrow> child_exit \<times> filesystem"

record environment =
  child :: child_env
  mkdirRefused :: "path \<Rightarrow> filesystem \<Rightarrow> (string \<times> nat) option"
  writeRefused :: "path \<Rightarrow> string \<Rightarrow> filesystem \<Rightarrow> (string \<times> string option) option"

text \<open>
  \<open>fs.mkdirp\<close> creates the directory and every missing ancestor. It is rejected when
  the path or one of its ancestors is a regular file, and then creates nothing; it is
  rejected when the environment refuses, and then some of the ancestors may have been
  created.
\<close>

definition mkdirp :: "environment \<Rightarrow> path \<Rightarrow> unit io" where
  "mkdirp env p fs =
     (if list_ex (\<lambda>q. is_file (lookup fs q)) (ancestors p)
      then (let e = Errno (if is_file (lookup fs p) then ''EEXIST'' else ''ENOTDIR'') ''mkdir'' p
            in (Inl e, fs, [(Mkdirp p, Some e)]))
      else (case mkdirRefused env p fs of
              Some (code, k) \<Rightarrow>
                (Inl (Errno code ''mkdir'' p), foldl mkdir_missing fs (take k (ancestors p)),
                 [(Mkdirp p, Some (Errno code ''mkdir'' p))])
            | None \<Rightarrow>
                (Inr (), foldl mkdir_missing fs (ancestors p), [(Mkdirp p, None)])))"

text \<open>
  \<open>fs.writeFile\<close> creates or replaces a regular file. It is rejected when the path is a
  directory or when its parent is not an existing directory (it creates no directory),
  and then changes nothing; it is rejected when the environment refuses, and then the
  file may have been left with some content.
\<close>

definition writeFile :: "environment \<Rightarrow> path \<Rightarrow> string \<Rightarrow> unit io" where
  "writeFile env p c fs =
     (case lookup fs p of
        Some Dir \<Rightarrow>
          (Inl (Errno ''EISDIR'' ''open'' p), fs,
           [(WriteFile p c, Some (Errno ''EISDIR'' ''open'' p))])
      | _ \<Rightarrow>
          (case lookup fs (butlast p) of
             Some Dir \<Rightarrow>
               (case writeRefused env p c fs of
                  Some (code, left) \<Rightarrow>
                    (Inl (Errno code ''open'' p),
                     (case left of None \<Rightarrow> fs | Some c' \<Rightarrow> AList.update p (File c') fs),
                     [(WriteFile p c, Some (Errno code ''open'' p))])
                | None \<Rightarrow> (Inr (), AList.update p (File c) fs, [(WriteFile p c, None)]))
           | Some (File d) \<Rightarrow>
               (Inl (Errno ''ENOTDIR'' ''open'' p), fs,
                [(WriteFile p c, Some (Errno ''ENOTDIR'' ''open'' p))])
           | None \<Rightarrow>
               (Inl (Errno ''ENOENT'' ''open'' p), fs,
                [(WriteFile p c, Some (Errno ''ENOENT'' ''open'' p))])))"

definition consoleLog :: "string \<Rightarrow> unit io" where
  "consoleLog s fs = (Inr (), fs, [(ConsoleLog s, None)])"

text \<open>\<open>run = (cmd, args, opts) => execa(cmd, args, {stdio: "inherit", ...opts})\<close>.\<close>

definition run :: "environment \<Rightarrow> string \<Rightarrow> string list \<Rightarrow> path \<Rightarrow> unit io" where
  "run env cmd args cwd fs =
     (case child env cmd args cwd fs of (x, fs') \<Rightarrow>
        if failed x
        then (Inl (ExecaError cmd args x), fs', [(Execa cmd args cwd, Some (ExecaError cmd args x))])
        else (Inr (), fs', [(Execa cmd args cwd, None)]))"

section \<open>The file contents written by scaffold.mjs\<close>

definition homeLayout :: string where
  \<open>homeLayout = concat
    [''import { useDispatch } from "react-redux";\<newline>'',
     ''import { useGlobalHook } from "./hooks/useGlobalHook";\<newline>'',
     ''import { setWelcomeMessage } from "./redux/globalSlice";\<newline>'',
     ''\<newline>'',
     ''export default function HomeLayout() {\<newline>'',
     ''  const { welcomeMessage } = useGlobalHook();\<newline>'',
     ''  const dispatch = useDispatch();\<newline>'',
     ''\<newline>'',
     ''  const handleClick = () => {\<newline>'',
     ''    dispatch(setWelcomeMessage("hey i am in In hello"));\<newline>'',
     ''  };\<newline>'',
     ''\<newline>'',
     ''  return (\<newline>'',
     ''    <main style={{ display: "grid", gap: 16 }}>\<newline>'',
     ''      <header>\<newline>'',
     ''        <h1>HomeLayout</h1>\<newline>'',
     ''        <p>Welcome message from Redux: <strong>{welcomeMessage}</strong></p>\<newline>'',
     ''      </header>\<newline>'',
     ''\<newline>'',
     ''      <section>\<newline>'',
     ''        <button onClick={handleClick} className="btn-change">\<newline>'',
     ''          Change Welcome Message\<newline>'',
     ''        </button>\<newline>'',
     ''      </section>\<newline>'',
     ''    </main>\<newline>'',
     ''  );\<newline>'',
     ''}\<newline>'']\<close>

definition helperFunctionsJs :: string where
  \<open>helperFunctionsJs = concat
    [''export const JPJS = (x)=>JSON.parse(JSON.stringify(x));\<newline>'']\<close>

definition screenMappersJsx :: string where
  \<open>screenMappersJsx = concat
    [''export const screens = {}; // add mappings here\<newline>'']\<close>

definition globalHook :: string where
  \<open>globalHook = concat
    [''import { useSelector, useDispatch } from "react-redux";\<newline>'',
     ''export const useGlobalHook = () => {\<newline>'',
     ''  const dispatch = useDispatch();\<newline>'',
     ''  const welcomeMessage = useSelector((s) => s.global.welcomeMessage);\<newline>'',
     ''  return { dispatch, welcomeMessage };\<newline>'',
     ''};\<newline>'']\<close>

definition initialState :: string where
  \<open>initialState = concat
    [''export const initialState = {\<newline>'',
     ''  global: {\<newline>'',
     ''    welcomeMessage: "hello",\<newline>'',
     ''  },\<newline>'',
     ''};\<newline>'']\<close>

definition globalSlice :: string where
  \<open>globalSlice = concat
    [''import { createSlice } from "@reduxjs/toolkit";\<newline>'',
     ''import { initialState } from "./initialState";\<newline>'',
     ''\<newline>'',
     ''const globalSlice = createSlice({\<newline>'',
     ''  name: "global",\<newline>'',
     ''  initialState: initialState.global,\<newline>'',
     ''  reducers: {\<newline>'',
     ''    setWelcomeMessage(state, action) {\<newline>'',
     ''      state.welcomeMessage = action.payload;\<newline>'',
     ''    },\<newline>'',
     ''  },\<newline>'',
     ''});\<newline>'',
     ''\<newline>'',
     ''export const { setWelcomeMessage } = globalSlice.actions;\<newline>'',
     ''export default globalSlice.reducer;\<newline>'']\<close>

definition store :: string where
  \<open>store = concat
    [''import { configureStore } from "@reduxjs/toolkit";\<newline>'',
     ''import global from "./globalSlice";\<newline>'',
     ''\<newline>'',
     ''export const store = configureStore({\<newline>'',
     ''  reducer: {\<newline>'',
     ''    global,\<newline>'',
     ''  },\<newline>'',
     ''});\<newline>'',
     ''\<newline>'',
     ''export default store;\<newline>'']\<close>

definition customAxiosInstance :: string where
  \<open>customAxiosInstance = concat
    [''import axios from "axios";\<newline>'',
     ''\<newline>'',
     ''export const customAxios = axios.create({\<newline>'',
     ''  baseURL: localStorage.getItem("API_ENDPOINT"),\<newline>'',
     ''});\<newline>'']\<close>

definition apiJs :: string where
  \<open>apiJs = concat
    [''import { createAsyncThunk } from "@reduxjs/toolkit";\<newline>'',
     ''import axios from "axios";\<newline>'',
     ''import { customAxios } from "./customAxiosInstance";\<newline>'',
     ''\<newline>'',
     ''export const fetchConfig = createAsyncThunk(\<newline>'',
     ''  "getConfigJson",\<newline>'',
     ''  async (_, { rejectWithValue }) => {\<newline>'',
     ''    try {\<newline>'',
     ''      const res = await axios.get("/config.json");\<newline>'',
     ''      const data = await res.data;\<newline>'',
     ''      localStorage.setItem("API_ENDPOINT", data.apiEndpoint);\<newline>'',
     ''      customAxios.defaults.baseURL = localStorage.getItem("API_ENDPOINT");\<newline>'',
     ''      return data;\<newline>'',
     ''    } catch (err) {\<newline>'',
     ''      return rejectWithValue({\<newline>'',
     ''        error: err?.response?.data?.detail || "Could not fetch details.",\<newline>'',
     ''      });\<newline>'',
     ''    }\<newline>'',
     ''  }\<newline>'',
     '');\<newline>'']\<close>

definition setupJs :: string where
  \<open>setupJs = concat
    [''// vitest/jest setup\<newline>'']\<close>

definition configJson :: string where
  \<open>configJson = concat
    [''{\<newline>'',
     ''  "apiEndpoint": "http://localhost:8000"\<newline>'',
     ''}\<newline>'']\<close>

definition colorsScss :: string where
  \<open>colorsScss = concat
    [''$primary: #2563eb;\<newline>'',
     ''$accent-blue: #4f46e5;\<newline>'',
     ''$ink-900: #0f172a;\<newline>'',
     ''$success: #10b981;\<newline>'',
     ''$warn: #f59e0b;\<newline>'',
     ''$danger: #ef4444;\<newline>'']\<close>

definition variablesScss :: string where
  \<open>variablesScss = concat
    [''$ff: "Poppins", system-ui, -apple-system, Segoe UI, Roboto, Arial, sans-serif;\<newline>'',
     ''$fs-10: 10px; $fs-11: 11px; $fs-12: 12px; $fs-13: 13px; $fs-14: 14px;\<newline>'',
     ''$sp-4: 4px; $sp-6: 6px; $sp-8: 8px; $sp-10: 10px; $sp-12: 12px; $sp-16: 16px;\<newline>'',
     ''$radius-6: 6px; $radius-8: 8px; $radius-10: 10px;\<newline>'']\<close>

definition mixinsScss :: string where
  \<open>mixinsScss = concat
    [''@import url('https://fonts.googleapis.com/css2?family=Poppins:wght@400;500;700&display=swap');\<newline>'',
     ''\<newline>'',
     ''@mixin app-text($fs, $color, $weight: 400) {\<newline>'',
     ''  font-family: 'Poppins';\<newline>'',
     ''  font-size: $fs;\<newline>'',
     ''  color: $color;\<newline>'',
     ''  font-weight: $weight;\<newline>'',
     ''  letter-spacing: 0.01em;\<newline>'',
     ''}\<newline>'',
     ''\<newline>'',
     ''@mixin flex-center { display:flex; align-items:center; justify-content:center; }\<newline>'',
     ''\<newline>'',
     ''@mixin transition-smooth { transition: all 0.2s ease-in-out; }\<newline>'',
     ''\<newline>'',
     ''@mixin shadow-card { box-shadow: 0 1px 3px 0 rgb(0 0 0 / 0.1), 0 1px 2px -1px rgb(0 0 0 / 0.1); }\<newline>'',
     ''\<newline>'',
     ''@mixin shadow-hover { box-shadow: 0 4px 6px -1px rgb(0 0 0 / 0.1), 0 2px 4px -2px rgb(0 0 0 / 0.1); }\<newline>'',
     ''\<newline>'',
     ''@mixin layout-row-start() {\<newline>'',
     ''  display:flex; flex-direction:row; align-items:flex-start; justify-content:flex-start;\<newline>'',
     ''}\<newline>'',
     ''\<newline>'',
     ''@mixin layout($flexdirection: row, $justifycontent: center, $alignitems: center) {\<newline>'',
     ''  display:flex; flex-direction:$flexdirection; align-items:$alignitems; justify-content:$justifycontent;\<newline>'',
     ''}\<newline>'',
     ''\<newline>'',
     ''@mixin font-props($font-weight, $font-size, $font-color) {\<newline>'',
     ''  font-family: "Poppins"; font-weight:$font-weight; font-size:$font-size; color:$font-color;\<newline>'',
     ''}\<newline>'',
     ''\<newline>'',
     ''@mixin mobile { @media (max-width: 480px) { @content; } }\<newline>'',
     ''@mixin tablet { @media (min-width: 481px) and (max-width: 768px) { @content; } }\<newline>'',
     ''@mixin desktop { @media (min-width: 769px) and (max-width: 1279px) { @content; } }\<newline>'',
     ''@mixin larger-desktop { @media (min-width: 1280px) { @content; } }\<newline>'']\<close>

definition mainScss :: string where
  \<open>mainScss = concat
    [''@use "abstract/colors";\<newline>'',
     ''@use "abstract/variables";\<newline>'',
     ''@use "abstract/mixins";\<newline>'',
     ''\<newline>'',
     '':root { font-family: variables.$ff; color: colors.$ink-900; }\<newline>'',
     ''body { margin:0; background:#f8fafc; }\<newline>'',
     ''\<newline>'',
     ''.container { padding: 16px; border: 1px solid rgba(0,0,0,.06); border-radius: 10px; background: #fff; }\<newline>'',
     ''.btn-change { @include mixins.app-text(14px, colors.$ink-900, 500); padding: 8px 12px; border:1px solid rgba(0,0,0,.12); border-radius:8px; background:#fff; cursor:pointer; @include mixins.transition-smooth; }\<newline>'',
     ''.btn-change:hover { @include mixins.shadow-hover; transform: translateY(-1px); }\<newline>'']\<close>

definition appJsx :: string where
  \<open>appJsx = concat
    [''import "./styles/_main.scss";\<newline>'',
     ''import HomeLayout from "./HomeLayout.jsx";\<newline>'',
     ''import { Toaster } from "react-hot-toast";\<newline>'',
     ''import { useEffect } from "react";\<newline>'',
     ''import { useDispatch } from "react-redux";\<newline>'',
     ''import { fetchConfig } from "./external/api";\<newline>'',
     ''\<newline>'',
     ''function App() {\<newline>'',
     ''  const dispatch = useDispatch();\<newline>'',
     ''\<newline>'',
     ''  useEffect(() => {\<newline>'',
     ''    dispatch(fetchConfig());\<newline>'',
     ''  }, [dispatch]);\<newline>'',
     ''\<newline>'',
     ''  return (\<newline>'',
     ''    <div className="container">\<newline>'',
     ''      <HomeLayout />\<newline>'',
     ''      <Toaster\<newline>'',
     ''        position="top-right"\<newline>'',
     ''        toastOptions={{\<newline>'',
     ''          duration: 3000,\<newline>'',
     ''          style: {\<newline>'',
     ''            fontSize: "14px",\<newline>'',
     ''            marginTop: 20,\<newline>'',
     ''            color: "#fff",\<newline>'',
     ''            fontFamily: "Poppins",\<newline>'',
     ''            letterSpacing: "0.7px",\<newline>'',
     ''          },\<newline>'',
     ''          success: { style: { background: "#098d6e" } },\<newline>'',
     ''          loading: { style: { background: "#162b42" } },\<newline>'',
     ''          error: { style: { background: "#ed5565" } },\<newline>'',
     ''        }}\<newline>'',
     ''      />\<newline>'',
     ''    </div>\<newline>'',
     ''  );\<newline>'',
     ''}\<newline>'',
     ''export default App;'']\<close>

definition mainJsx :: string where
  \<open>mainJsx = concat
    [''import React from "react";\<newline>'',
     ''import ReactDOM from "react-dom/client";\<newline>'',
     ''import App from "./App.jsx";\<newline>'',
     ''import { Provider } from "react-redux";\<newline>'',
     ''import { store } from "./redux/store";\<newline>'',
     ''\<newline>'',
     ''ReactDOM.createRoot(document.getElementById("root")).render(\<newline>'',
     ''  <React.StrictMode>\<newline>'',
     ''    <Provider store={store}>\<newline>'',
     ''      <App />\<newline>'',
     ''    </Provider>\<newline>'',
     ''  </React.StrictMode>\<newline>'',
     '');\<newline>'']\<close>

section \<open>scaffold.mjs\<close>

record scaffold_args =
  appName :: string
  packageManager :: "string option"
  install :: "bool option"

text \<open>Lines 12 to 17: the target directory must be missing or empty.\<close>

definition notEmptyMessage :: "string \<Rightarrow> string" where
  "notEmptyMessage nm =
     ''Directory '' @ [CHR 0x27] @ nm @ [CHR 0x27] @ '' already exists and is not empty.''"

definition targetCheck :: "environment \<Rightarrow> string \<Rightarrow> path \<Rightarrow> unit io" where
  "targetCheck env nm appDir =
     bnd (pathExists appDir) (\<lambda>ex.
       if ex
       then bnd (readdir appDir) (\<lambda>files.
              if files \<noteq> [] then throw (Error (notEmptyMessage nm)) else ret ())
       else mkdirp env appDir)"

text \<open>Lines 19 to 33: the generator.\<close>

record vite_args =
  npm :: "string list"
  pnpm :: "string list"
  yarn :: "string list"
  bun :: "string list"

definition viteArgsByPM :: "string \<Rightarrow> vite_args" where
  "viteArgsByPM nm =
     \<lparr> npm = [''create'', ''vite@latest'', nm, ''--'', ''--template'', ''react''],
       pnpm = [''create'', ''vite'', nm, ''--template'', ''react''],
       yarn = [''create'', ''vite'', nm, ''--template'', ''react''],
       bun = [''x'', ''create-vite'', nm, ''--template'', ''react''] \<rparr>"

definition generatorCommand :: "string \<Rightarrow> string \<Rightarrow> string \<times> string list" where
  "generatorCommand pm nm =
     (if pm = ''pnpm'' then (''pnpm'', pnpm (viteArgsByPM nm))
      else if pm = ''yarn'' then (''yarn'', yarn (viteArgsByPM nm))
      else if pm = ''bun'' then (''bun'', bun (viteArgsByPM nm))
      else (''npm'', npm (viteArgsByPM nm)))"

definition createVite :: "environment \<Rightarrow> string \<Rightarrow> string \<Rightarrow> path \<Rightarrow> unit io" where
  "createVite env pm nm cwd =
     (case generatorCommand pm nm of (cmd, args) \<Rightarrow> run env cmd args cwd)"

text \<open>Lines 37 to 39: the body of \<open>if (install)\<close>.\<close>

definition installDeps :: "environment \<Rightarrow> string \<Rightarrow> path \<Rightarrow> unit io" where
  "installDeps env pm appDir =
     seq [run env pm [''install''] appDir,
          run env pm [''add'', ''-D'', ''sass''] appDir,
          run env pm [''add'', ''@reduxjs/toolkit'', ''react-redux'', ''axios'', ''react-hot-toast''] appDir]"

text \<open>Lines 43 to 56: the folders.\<close>

definition createFolders :: "environment \<Rightarrow> path \<Rightarrow> unit io" where
  "createFolders env appDir =
     (let src = path_join appDir [''src''];
          mk = (\<lambda>p. mkdirp env (path_join src [p]))
      in bnd (promiseAll
               [mk ''__tests__'',
                mk ''assets'',
                mk ''components/UserControls'',
                mk ''external'',
                mk ''helpers'',
                mk ''hooks'',
                mk ''redux'',
                mk ''styles/abstract'',
                mk ''styles/pages''])
           (\<lambda>_. mkdirp env (path_join appDir [''public''])))"

text \<open>Lines 58 to 304: the files, one awaited write after the other.\<close>

definition writeFiles :: "environment \<Rightarrow> path \<Rightarrow> unit io" where
  "writeFiles env appDir =
     (let src = path_join appDir [''src''];
          stylesDir = path_join src [''styles''];
          mainJsxPath = path_join src [''main.jsx'']
      in seq
        [writeFile env (path_join src [''HomeLayout.jsx'']) homeLayout,
         writeFile env (path_join src [''helpers'', ''helperFunctions.js'']) helperFunctionsJs,
         writeFile env (path_join src [''helpers'', ''screenMappers.jsx'']) screenMappersJsx,
         writeFile env (path_join src [''hooks'', ''useGlobalHook.js'']) globalHook,
         writeFile env (path_join src [''redux'', ''initialState.js'']) initialState,
         writeFile env (path_join src [''redux'', ''globalSlice.js'']) globalSlice,
         writeFile env (path_join src [''redux'', ''store.js'']) store,
         writeFile env (path_join src [''external'', ''customAxiosInstance.js'']) customAxiosInstance,
         writeFile env (path_join src [''external'', ''api.js'']) apiJs,
         writeFile env (path_join src [''__tests__'', ''setup.js'']) setupJs,
         writeFile env (path_join appDir [''public'', ''config.json'']) configJson,
         writeFile env (path_join stylesDir [''abstract'', ''_colors.scss'']) colorsScss,
         writeFile env (path_join stylesDir [''abstract'', ''_variables.scss'']) variablesScss,
         writeFile env (path_join stylesDir [''abstract'', ''_mixins.scss'']) mixinsScss,
         writeFile env (path_join stylesDir [''_main.scss'']) mainScss,
         writeFile env (path_join src [''App.jsx'']) appJsx,
         writeFile env mainJsxPath mainJsx])"

definition finalTip :: string where
  "finalTip = [CHR 0x5C] @ ''n Scaffolded Redux, hooks, API, Toaster, and SCSS successfully.''"

text \<open>
  The parameter list \<open>{ appName, packageManager = "npm", install = true }\<close>: a property
  that the caller left out takes its default.
\<close>

definition packageManagerOf :: "scaffold_args \<Rightarrow> string" where
  "packageManagerOf a = (case packageManager a of None \<Rightarrow> ''npm'' | Some p \<Rightarrow> p)"

definition installOf :: "scaffold_args \<Rightarrow> bool" where
  "installOf a = (case install a of None \<Rightarrow> True | Some b \<Rightarrow> b)"

definition scaffold :: "environment \<Rightarrow> scaffold_args \<Rightarrow> path \<Rightarrow> unit io" where
  "scaffold env a cwd =
     (let nm = appName a;
          pm = packageManagerOf a;
          inst = installOf a;
          appDir = path_resolve cwd nm
      in bnd (targetCheck env nm appDir) (\<lambda>_.
         bnd (createVite env pm nm cwd) (\<lambda>_.
         bnd (if inst then installDeps env pm appDir else ret ()) (\<lambda>_.
         bnd (createFolders env appDir) (\<lambda>_.
         bnd (writeFiles env appDir) (\<lambda>_.
         consoleLog finalTip))))))"

section \<open>cli.mjs\<close>

record cli_opts =
  opt_packageManager :: string
  opt_install :: bool

definition doneMessage :: "string \<Rightarrow> string \<Rightarrow> string" where
  "doneMessage nm pm =
     ''\<newline> Done. Next:\<newline>  cd '' @ nm @ ''\<newline>  '' @ pm @ '' run dev\<newline>''"

text \<open>
  The action of the command: the exit status, the file system left and the events.
  \<open>err?.message || err\<close> prints the error itself when its message is empty; how the
  console renders an error object is the parameter \<open>inspect\<close>. \<open>console.error\<close> joins its
  two arguments with a space.
\<close>

definition cli ::
  "(error \<Rightarrow> string) \<Rightarrow> environment \<Rightarrow> string \<Rightarrow> cli_opts \<Rightarrow> path \<Rightarrow> filesystem
     \<Rightarrow> nat \<times> filesystem \<times> event list" where
  "cli inspect env nm opts cwd fs =
     (case scaffold env
             \<lparr> appName = nm, packageManager = Some (opt_packageManager opts),
               install = Some (opt_install opts) \<rparr> cwd fs of
        (Inr u, fs', ev) \<Rightarrow>
          (0, fs', ev @ [(ConsoleLog (doneMessage nm (opt_packageManager opts)), None)])
      | (Inl err, fs', ev) \<Rightarrow>
          (1, fs', ev @
             [(ConsoleError (''\<newline> Scaffold failed: '' @
                 (if message err \<noteq> [] then message err else inspect err)), None)]))"

section \<open>Reading a JSON object whose members are strings\<close>

definition is_ws :: "char \<Rightarrow> bool" where
  "is_ws c = (c = CHR '' '' \<or> c = CHR 0x0A \<or> c = CHR 0x09 \<or> c = CHR 0x0D)"

definition skip_ws :: "string \<Rightarrow> string" where
  "skip_ws s = dropWhile is_ws s"

text \<open>
  A string token: an opening quote, characters other than the quote, a closing quote.
  Escapes are not read (a backslash is refused), control characters are refused.
\<close>

definition json_string :: "string \<Rightarrow> (string \<times> string) option" where
  "json_string s =
     (case s of
        [] \<Rightarrow> None
      | c # cs \<Rightarrow>
          if c \<noteq> CHR 0x22 then None
          else (let body = takeWhile (\<lambda>x. x \<noteq> CHR 0x22) cs;
                    rest = dropWhile (\<lambda>x. x \<noteq> CHR 0x22) cs
                in if rest = [] \<or> CHR 0x5C \<in> set body
                      \<or> list_ex (\<lambda>x. (of_char x :: nat) < 32) body
                   then None else Some (body, tl rest)))"

fun json_members :: "nat \<Rightarrow> string \<Rightarrow> (string \<times> string) list option" where
  "json_members 0 s = None"
| "json_members (Suc n) s =
     (case json_string s of
        None \<Rightarrow> None
      | Some (k, r1) \<Rightarrow>
          (case skip_ws r1 of
             [] \<Rightarrow> None
           | c # r2 \<Rightarrow>
               if c \<noteq> CHR '':'' then None
               else (case json_string (skip_ws r2) of
                       None \<Rightarrow> None
                     | Some (v, r3) \<Rightarrow>
                         (case skip_ws r3 of
                            [] \<Rightarrow> None
                          | d # r4 \<Rightarrow>
                              if d = CHR '','' then
                                map_option (\<lambda>ms. (k, v) # ms) (json_members n (skip_ws r4))
                              else if d = CHR ''}'' \<and> skip_ws r4 = [] then Some [(k, v)]
                              else None))))"

text \<open>The members of the object, in order; \<open>None\<close> when the text is not such an object.\<close>

definition json_object :: "string \<Rightarrow> (string \<times> string) list option" where
  "json_object s =
     (case skip_ws s of
        [] \<Rightarrow> None
      | c # r \<Rightarrow>
          if c \<noteq> CHR ''{'' then None
          else (case skip_ws r of
                  [] \<Rightarrow> None
                | d # r' \<Rightarrow>
                    if d = CHR ''}'' then (if skip_ws r' = [] then Some [] else None)
                    else json_members (length s) (skip_ws r)))"

section \<open>Reading a run\<close>

text \<open>The child processes of a run, in the order in which they were spawned.\<close>

fun spawnOf :: "event \<Rightarrow> (string \<times> string list \<times> path) list" where
  "spawnOf (Execa cmd args d, r) = [(cmd, args, d)]"
| "spawnOf (c, r) = []"

definition spawned :: "event list \<Rightarrow> (string \<times> string list \<times> path) list" where
  "spawned ev = concat (map spawnOf ev)"

text \<open>The calls of a run that create a directory or write a file, and their paths.\<close>

fun writeOf :: "event \<Rightarrow> call list" where
  "writeOf (Mkdirp p, r) = [Mkdirp p]"
| "writeOf (WriteFile p c, r) = [WriteFile p c]"
| "writeOf (c, r) = []"

definition fsWrites :: "event list \<Rightarrow> call list" where
  "fsWrites ev = concat (map writeOf ev)"

fun targetOf :: "event \<Rightarrow> path list" where
  "targetOf (Mkdirp p, r) = [p]"
| "targetOf (WriteFile p c, r) = [p]"
| "targetOf (c, r) = []"

definition written :: "event list \<Rightarrow> path list" where
  "written ev = concat (map targetOf ev)"

text \<open>
  The directories of lines 46 to 56 and the files of lines 89 to 304, relative to the
  target directory, in the order of the source.
\<close>

definition fixedDirs :: "path list" where
  "fixedDirs =
     [ [''src'', ''__tests__''],
      [''src'', ''assets''],
      [''src'', ''components'', ''UserControls''],
      [''src'', ''external''],
      [''src'', ''helpers''],
      [''src'', ''hooks''],
      [''src'', ''redux''],
      [''src'', ''styles'', ''abstract''],
      [''src'', ''styles'', ''pages''],
      [''public'']]"

definition fixedFiles :: "(path \<times> string) list" where
  "fixedFiles =
     [([''src'', ''HomeLayout.jsx''], homeLayout),
      ([''src'', ''helpers'', ''helperFunctions.js''], helperFunctionsJs),
      ([''src'', ''helpers'', ''screenMappers.jsx''], screenMappersJsx),
      ([''src'', ''hooks'', ''useGlobalHook.js''], globalHook),
      ([''src'', ''redux'', ''initialState.js''], initialState),
      ([''src'', ''redux'', ''globalSlice.js''], globalSlice),
      ([''src'', ''redux'', ''store.js''], store),
      ([''src'', ''external'', ''customAxiosInstance.js''], customAxiosInstance),
      ([''src'', ''external'', ''api.js''], apiJs),
      ([''src'', ''__tests__'', ''setup.js''], setupJs),
      ([''public'', ''config.json''], configJson),
      ([''src'', ''styles'', ''abstract'', ''_colors.scss''], colorsScss),
      ([''src'', ''styles'', ''abstract'', ''_variables.scss''], variablesScss),
      ([''src'', ''styles'', ''abstract'', ''_mixins.scss''], mixinsScss),
      ([''src'', ''styles'', ''_main.scss''], mainScss),
      ([''src'', ''App.jsx''], appJsx),
      ([''src'', ''main.jsx''], mainJsx)]"

definition layoutCalls :: "path \<Rightarrow> call list" where
  "layoutCalls appDir =
     map (\<lambda>rel. Mkdirp (appDir @ rel)) fixedDirs
     @ map (\<lambda>(rel, c). WriteFile (appDir @ rel) c) fixedFiles"

section \<open>Example environments\<close>

text \<open>
  An environment that refuses nothing and in which every child exits with status 0 and
  leaves the file system as it found it.
\<close>

definition quietChild :: environment where
  "quietChild =
     \<lparr> child = (\<lambda>cmd args d fs. (Exited 0, fs)),
       mkdirRefused = (\<lambda>p fs. None),
       writeRefused = (\<lambda>p c fs. None) \<rparr>"

text \<open>The same, but a child exits with status 1 when its arguments are \<open>bad\<close>.\<close>

definition failingChild :: "string list \<Rightarrow> environment" where
  "failingChild bad =
     \<lparr> child = (\<lambda>cmd args d fs. if args = bad then (Exited 1, fs) else (Exited 0, fs)),
       mkdirRefused = (\<lambda>p fs. None),
       writeRefused = (\<lambda>p c fs. None) \<rparr>"


definition demoArgs :: scaffold_args where
  "demoArgs = \<lparr> appName = ''demo'', packageManager = Some ''npm'', install = Some True \<rparr>"

definition home :: path where
  "home = [''home'', ''dev'']"

definition homeFs :: filesystem where
  "homeFs = [([''home''], Dir), ([''home'', ''dev''], Dir)]"

text \<open>The same with an empty \<open>demo\<close> directory, and with one that holds a file.\<close>

definition emptyDemoFs :: filesystem where
  "emptyDemoFs = [([''home''], Dir), ([''home'', ''dev''], Dir), ([''home'', ''dev'', ''demo''], Dir)]"

definition usedDemoFs :: filesystem where
  "usedDemoFs =
     [([''home''], Dir), ([''home'', ''dev''], Dir), ([''home'', ''dev'', ''demo''], Dir),
      ([''home'', ''dev'', ''demo'', ''notes.txt''], File ''keep'')]"



definition noInstallArgs :: scaffold_args where
  "noInstallArgs = \<lparr> appName = ''demo'', packageManager = Some ''npm'', install = Some False \<rparr>"

definition denoArgs :: scaffold_args where
  "denoArgs = \<lparr> appName = ''demo'', packageManager = Some ''deno'', install = None \<rparr>"

section \<open>Sequencing\<close>

lemma bnd_Inr:
  "m fs = (Inr x, f1, e1) \<Longrightarrow> bnd m k fs = (case k x f1 of (r, f2, e2) \<Rightarrow> (r, f2, e1 @ e2))"
  by (simp add: bnd_def)

lemma bnd_cases:
  assumes "bnd m k fs = (r, f, ev)"
  obtains (rejected) e where "m fs = (Inl e, f, ev)" and "r = Inl e"
  | (fulfilled) x f1 e1 e2 where "m fs = (Inr x, f1, e1)" and "k x f1 = (r, f, e2)"
      and "ev = e1 @ e2"
  using assms by (auto simp: bnd_def split: prod.splits sum.splits)

lemma createFolders_eq:
  "createFolders env appDir =
     bnd (promiseAll (map (\<lambda>rel. mkdirp env (appDir @ rel)) (butlast fixedDirs)))
       (\<lambda>_. mkdirp env (appDir @ last fixedDirs))"
  by (simp add: createFolders_def fixedDirs_def path_join_def segments_def norm_step_def)

lemma writeFiles_eq:
  "writeFiles env appDir = seq (map (\<lambda>(rel, c). writeFile env (appDir @ rel) c) fixedFiles)"
  by (simp add: writeFiles_def fixedFiles_def path_join_def segments_def norm_step_def)

section \<open>The file-system calls\<close>

lemma lookup_root: "lookup fs [] = Some Dir"
  by (simp add: lookup_def)

lemma lookup_mkdir_missing:
  "lookup (mkdir_missing fs q') q = (if q = q' \<and> lookup fs q' = None then Some Dir else lookup fs q)"
  by (auto simp: mkdir_missing_def lookup_def map_add_def split: option.splits)

lemma lookup_foldl_mkdir:
  "lookup (foldl mkdir_missing fs qs) q =
     (if q \<in> set qs \<and> lookup fs q = None then Some Dir else lookup fs q)"
proof (induction qs arbitrary: fs)
  case Nil
  show ?case by simp
next
  case (Cons a qs)
  show ?case
    unfolding foldl_Cons Cons.IH lookup_mkdir_missing by auto
qed

lemma lookup_update:
  "p \<noteq> [] \<Longrightarrow> lookup (AList.update p v fs) q = (if q = p then Some v else lookup fs q)"
  by (simp add: lookup_def update_conv')

lemma mkdirp_cases:
  assumes "mkdirp env p fs = (r, f, ev)"
  obtains (created) "r = Inr ()" and "f = foldl mkdir_missing fs (ancestors p)"
      and "ev = [(Mkdirp p, None)]" and "\<not> list_ex (\<lambda>q. is_file (lookup fs q)) (ancestors p)"
      and "mkdirRefused env p fs = None"
  | (refused) code k where "r = Inl (Errno code ''mkdir'' p)"
      and "f = foldl mkdir_missing fs (take k (ancestors p))"
      and "ev = [(Mkdirp p, Some (Errno code ''mkdir'' p))]"
proof (cases "list_ex (\<lambda>q. is_file (lookup fs q)) (ancestors p)")
  case True
  with assms have "r = Inl (Errno (if is_file (lookup fs p) then ''EEXIST'' else ''ENOTDIR'') ''mkdir'' p)"
    and "f = foldl mkdir_missing fs (take 0 (ancestors p))"
    and "ev = [(Mkdirp p, Some (Errno (if is_file (lookup fs p) then ''EEXIST'' else ''ENOTDIR'') ''mkdir'' p))]"
    by (auto simp: mkdirp_def Let_def)
  then show ?thesis by (rule refused)
next
  case False
  show ?thesis
  proof (cases "mkdirRefused env p fs")
    case None
    with False assms created show ?thesis
      by (auto simp: mkdirp_def)
  next
    case (Some ck)
    obtain code k where "ck = (code, k)" by (cases ck)
    with Some False assms refused [of code k] show ?thesis
      by (auto simp: mkdirp_def)
  qed
qed

lemma writeFile_cases:
  assumes "writeFile env p c fs = (r, f, ev)"
  obtains (stored) "r = Inr ()" and "f = AList.update p (File c) fs" and "p \<noteq> []"
      and "ev = [(WriteFile p c, None)]" and "lookup fs (butlast p) = Some Dir"
  | (refused) code where "r = Inl (Errno code ''open'' p)"
      and "f = fs \<or> (\<exists>c'. f = AList.update p (File c') fs \<and> p \<noteq> [] \<and> lookup fs p \<noteq> Some Dir)"
      and "ev = [(WriteFile p c, Some (Errno code ''open'' p))]"
proof (cases "p = []")
  case True
  with assms refused show ?thesis
    by (auto simp: writeFile_def lookup_root)
next
  case False
  with assms stored refused show ?thesis
    by (auto simp: writeFile_def split: option.splits node.splits) blast+
qed

lemma promiseAll_mkdirp:
  "promiseAll (map (mkdirp env) ps) fs = (r, f, ev) \<Longrightarrow>
     map fst ev = map Mkdirp ps
     \<and> (r = Inr () \<longrightarrow> ev = map (\<lambda>p. (Mkdirp p, None)) ps)
     \<and> (\<forall>e. r = Inl e \<longrightarrow> message e \<noteq> [])"
proof (induction ps arbitrary: fs r f ev)
  case Nil
  then show ?case by auto
next
  case (Cons p ps)
  obtain r1 f1 ev1 where m: "mkdirp env p fs = (r1, f1, ev1)"
    by (cases "mkdirp env p fs") auto
  obtain r2 f2 ev2 where rest: "promiseAll (map (mkdirp env) ps) f1 = (r2, f2, ev2)"
    by (cases "promiseAll (map (mkdirp env) ps) f1") auto
  from Cons.prems m rest have ev: "ev = ev1 @ ev2" and f: "f = f2"
    and r: "r = (case r1 of Inl e \<Rightarrow> Inl e | Inr u \<Rightarrow> r2)"
    by auto
  note IH = Cons.IH [OF rest]
  from m show ?case
  proof (cases rule: mkdirp_cases)
    case created
    with IH ev r show ?thesis by auto
  next
    case (refused code)
    with IH ev r show ?thesis by auto
  qed
qed

lemma seq_writeFile:
  "seq (map (\<lambda>(p, c). writeFile env p c) pcs) fs = (r, f, ev) \<Longrightarrow>
     set (map fst ev) \<subseteq> set (map (\<lambda>(p, c). WriteFile p c) pcs)
     \<and> (r = Inr () \<longrightarrow> ev = map (\<lambda>(p, c). (WriteFile p c, None)) pcs)
     \<and> (\<forall>e. r = Inl e \<longrightarrow> message e \<noteq> [])"
proof (induction pcs arbitrary: fs r f ev)
  case Nil
  then show ?case by (auto simp: ret_def)
next
  case (Cons pc pcs)
  obtain p c where pc: "pc = (p, c)" by (cases pc)
  from Cons.prems have b: "bnd (writeFile env p c) (\<lambda>_. seq (map (\<lambda>(p, c). writeFile env p c) pcs)) fs = (r, f, ev)"
    by (simp add: pc)
  from b show ?case
  proof (cases rule: bnd_cases)
    case (rejected e)
    from rejected(1) show ?thesis
      by (cases rule: writeFile_cases) (use rejected(2) pc in auto)
  next
    case (fulfilled x f1 e1 e2)
    note IH = Cons.IH [OF fulfilled(2)]
    from fulfilled(1) show ?thesis
      by (cases rule: writeFile_cases) (use IH fulfilled(3) pc in auto)
  qed
qed

section \<open>The steps of scaffold\<close>

lemma spawned_append: "spawned (xs @ ys) = spawned xs @ spawned ys"
  by (simp add: spawned_def)

lemma fsWrites_append: "fsWrites (xs @ ys) = fsWrites xs @ fsWrites ys"
  by (simp add: fsWrites_def)

lemma written_append: "written (xs @ ys) = written xs @ written ys"
  by (simp add: written_def)

lemma targetCheck_nonempty:
  "lookup fs d = Some Dir \<Longrightarrow> entries fs d \<noteq> [] \<Longrightarrow>
   targetCheck env nm d fs =
     (Inl (Error (notEmptyMessage nm)), fs, [(PathExists d, None), (Readdir d, None)])"
  by (simp add: targetCheck_def bnd_def pathExists_def readdir_def throw_def)

lemma targetCheck_empty:
  "lookup fs d = Some Dir \<Longrightarrow> entries fs d = [] \<Longrightarrow>
   targetCheck env nm d fs = (Inr (), fs, [(PathExists d, None), (Readdir d, None)])"
  by (simp add: targetCheck_def bnd_def pathExists_def readdir_def ret_def)

lemma targetCheck_file:
  "lookup fs d = Some (File c) \<Longrightarrow>
   targetCheck env nm d fs =
     (Inl (Errno ''ENOTDIR'' ''scandir'' d), fs,
      [(PathExists d, None), (Readdir d, Some (Errno ''ENOTDIR'' ''scandir'' d))])"
  by (simp add: targetCheck_def bnd_def pathExists_def readdir_def)

lemma targetCheck_missing:
  "lookup fs d = None \<Longrightarrow>
   targetCheck env nm d fs =
     (case mkdirp env d fs of (r, f, ev) \<Rightarrow> (r, f, (PathExists d, None) # ev))"
  by (simp add: targetCheck_def bnd_def pathExists_def split: prod.splits sum.splits)

lemma notEmptyMessage_nonempty: "notEmptyMessage nm \<noteq> []"
  by (simp add: notEmptyMessage_def)

lemma targetCheck_shape:
  assumes "targetCheck env nm d fs = (r, f, ev)"
  shows "spawned ev = []"
    and "\<forall>e. r = Inl e \<longrightarrow> message e \<noteq> []"
    and "r = Inr () \<longrightarrow> fsWrites ev = (if lookup fs d = None then [Mkdirp d] else [])"
proof -
  have "spawned ev = [] \<and> (\<forall>e. r = Inl e \<longrightarrow> message e \<noteq> [])
      \<and> (r = Inr () \<longrightarrow> fsWrites ev = (if lookup fs d = None then [Mkdirp d] else []))"
  proof (cases "lookup fs d")
    case None
    obtain r1 f1 ev1 where m: "mkdirp env d fs = (r1, f1, ev1)"
      by (cases "mkdirp env d fs") auto
    with assms None have eq: "r = r1" "f = f1" "ev = (PathExists d, None) # ev1"
      by (simp_all add: targetCheck_missing)
    from m show ?thesis
      by (cases rule: mkdirp_cases) (use eq None in \<open>auto simp: spawned_def fsWrites_def\<close>)
  next
    case (Some n)
    show ?thesis
    proof (cases n)
      case (File c)
      with Some assms show ?thesis
        by (auto simp: targetCheck_file spawned_def fsWrites_def)
    next
      case Dir
      with Some assms show ?thesis
        by (cases "entries fs d = []")
           (auto simp: targetCheck_empty targetCheck_nonempty spawned_def fsWrites_def
              notEmptyMessage_nonempty)
    qed
  qed
  then show "spawned ev = []"
    and "\<forall>e. r = Inl e \<longrightarrow> message e \<noteq> []"
    and "r = Inr () \<longrightarrow> fsWrites ev = (if lookup fs d = None then [Mkdirp d] else [])"
    by blast+
qed

lemma createFolders_shape:
  assumes "createFolders env d fs = (r, f, ev)"
  shows "set (map fst ev) \<subseteq> set (map (\<lambda>rel. Mkdirp (d @ rel)) fixedDirs)"
    and "r = Inr () \<longrightarrow> ev = map (\<lambda>rel. (Mkdirp (d @ rel), None)) fixedDirs"
    and "\<forall>e. r = Inl e \<longrightarrow> message e \<noteq> []"
proof -
  have split: "fixedDirs = butlast fixedDirs @ [last fixedDirs]"
    by (simp add: fixedDirs_def)
  from assms have b: "bnd (promiseAll (map (mkdirp env) (map (\<lambda>rel. d @ rel) (butlast fixedDirs))))
       (\<lambda>_. mkdirp env (d @ last fixedDirs)) fs = (r, f, ev)"
    by (simp add: createFolders_eq comp_def)
  have "set (map fst ev) \<subseteq> set (map (\<lambda>rel. Mkdirp (d @ rel)) fixedDirs)
      \<and> (r = Inr () \<longrightarrow> ev = map (\<lambda>rel. (Mkdirp (d @ rel), None)) fixedDirs)
      \<and> (\<forall>e. r = Inl e \<longrightarrow> message e \<noteq> [])"
    using b
  proof (cases rule: bnd_cases)
    case (rejected e)
    from promiseAll_mkdirp [OF rejected(1)] rejected(2)
    have "map fst ev = map Mkdirp (map (\<lambda>rel. d @ rel) (butlast fixedDirs))" and "message e \<noteq> []"
      by auto
    then have "set (map fst ev) \<subseteq> set (map (\<lambda>rel. Mkdirp (d @ rel)) (butlast fixedDirs @ [last fixedDirs]))"
      by auto
    with split have "set (map fst ev) \<subseteq> set (map (\<lambda>rel. Mkdirp (d @ rel)) fixedDirs)"
      by simp
    with rejected(2) \<open>message e \<noteq> []\<close> show ?thesis by auto
  next
    case (fulfilled x f1 e1 e2)
    from promiseAll_mkdirp [OF fulfilled(1)]
    have e1: "e1 = map (\<lambda>p. (Mkdirp p, None)) (map (\<lambda>rel. d @ rel) (butlast fixedDirs))"
      by auto
    have "set (map fst e2) \<subseteq> {Mkdirp (d @ last fixedDirs)}
        \<and> (r = Inr () \<longrightarrow> e2 = [(Mkdirp (d @ last fixedDirs), None)])
        \<and> (\<forall>e. r = Inl e \<longrightarrow> message e \<noteq> [])"
      using fulfilled(2) by (cases rule: mkdirp_cases) auto
    with e1 fulfilled(3)
    have "set (map fst ev) \<subseteq> set (map (\<lambda>rel. Mkdirp (d @ rel)) (butlast fixedDirs @ [last fixedDirs]))
        \<and> (r = Inr () \<longrightarrow> ev = map (\<lambda>rel. (Mkdirp (d @ rel), None)) (butlast fixedDirs @ [last fixedDirs]))
        \<and> (\<forall>e. r = Inl e \<longrightarrow> message e \<noteq> [])"
      by (auto simp: comp_def)
    with split show ?thesis by simp
  qed
  then show "set (map fst ev) \<subseteq> set (map (\<lambda>rel. Mkdirp (d @ rel)) fixedDirs)"
    and "r = Inr () \<longrightarrow> ev = map (\<lambda>rel. (Mkdirp (d @ rel), None)) fixedDirs"
    and "\<forall>e. r = Inl e \<longrightarrow> message e \<noteq> []"
    by blast+
qed

lemma writeFiles_shape:
  assumes "writeFiles env d fs = (r, f, ev)"
  shows "set (map fst ev) \<subseteq> set (map (\<lambda>(rel, c). WriteFile (d @ rel) c) fixedFiles)"
    and "r = Inr () \<longrightarrow> ev = map (\<lambda>(rel, c). (WriteFile (d @ rel) c, None)) fixedFiles"
    and "\<forall>e. r = Inl e \<longrightarrow> message e \<noteq> []"
proof -
  have m: "map (\<lambda>(rel, c). writeFile env (d @ rel) c) fixedFiles
      = map (\<lambda>(p, c). writeFile env p c) (map (\<lambda>(rel, c). (d @ rel, c)) fixedFiles)"
    by (simp add: comp_def case_prod_unfold)
  from assms have "seq (map (\<lambda>(p, c). writeFile env p c) (map (\<lambda>(rel, c). (d @ rel, c)) fixedFiles)) fs = (r, f, ev)"
    by (simp only: writeFiles_eq m)
  from seq_writeFile [OF this]
  show "set (map fst ev) \<subseteq> set (map (\<lambda>(rel, c). WriteFile (d @ rel) c) fixedFiles)"
    and "r = Inr () \<longrightarrow> ev = map (\<lambda>(rel, c). (WriteFile (d @ rel) c, None)) fixedFiles"
    and "\<forall>e. r = Inl e \<longrightarrow> message e \<noteq> []"
    by (simp_all add: comp_def case_prod_unfold)
qed

section \<open>The child processes and the shape of a run\<close>

text \<open>The child processes: the generator, then the three installs when enabled.\<close>

lemma children_chain:
  assumes "generatorCommand pm nm = (gc, ga)"
    and "child env gc ga cwd f0 = (x1, f1)"
    and "child env pm [''install''] d f1 = (x2, f2)"
    and "child env pm [''add'', ''-D'', ''sass''] d f2 = (x3, f3)"
    and "child env pm [''add'', ''@reduxjs/toolkit'', ''react-redux'', ''axios'', ''react-hot-toast''] d f3 = (x4, f4)"
  shows "bnd (createVite env pm nm cwd) (\<lambda>_. if inst then installDeps env pm d else ret ()) f0 =
    (if failed x1 then
       (Inl (ExecaError gc ga x1), f1, [(Execa gc ga cwd, Some (ExecaError gc ga x1))])
     else if \<not> inst then
       (Inr (), f1, [(Execa gc ga cwd, None)])
     else if failed x2 then
       (Inl (ExecaError pm [''install''] x2), f2,
        [(Execa gc ga cwd, None),
         (Execa pm [''install''] d, Some (ExecaError pm [''install''] x2))])
     else if failed x3 then
       (Inl (ExecaError pm [''add'', ''-D'', ''sass''] x3), f3,
        [(Execa gc ga cwd, None),
         (Execa pm [''install''] d, None),
         (Execa pm [''add'', ''-D'', ''sass''] d, Some (ExecaError pm [''add'', ''-D'', ''sass''] x3))])
     else if failed x4 then
       (Inl (ExecaError pm [''add'', ''@reduxjs/toolkit'', ''react-redux'', ''axios'', ''react-hot-toast''] x4), f4,
        [(Execa gc ga cwd, None),
         (Execa pm [''install''] d, None),
         (Execa pm [''add'', ''-D'', ''sass''] d, None),
         (Execa pm [''add'', ''@reduxjs/toolkit'', ''react-redux'', ''axios'', ''react-hot-toast''] d,
          Some (ExecaError pm [''add'', ''@reduxjs/toolkit'', ''react-redux'', ''axios'', ''react-hot-toast''] x4))])
     else
       (Inr (), f4,
        [(Execa gc ga cwd, None),
         (Execa pm [''install''] d, None),
         (Execa pm [''add'', ''-D'', ''sass''] d, None),
         (Execa pm [''add'', ''@reduxjs/toolkit'', ''react-redux'', ''axios'', ''react-hot-toast''] d, None)]))"
  using assms
  by (simp add: bnd_def createVite_def installDeps_def run_def ret_def)

lemma bnd_assoc: "bnd (bnd m k) h = bnd m (\<lambda>x. bnd (k x) h)"
  by (rule ext) (simp add: bnd_def split: prod.splits sum.splits)

lemma scaffold_cases:
  assumes run: "scaffold env a cwd fs = (r, f, ev)"
    and d: "d = path_resolve cwd (appName a)"
  obtains
    (check) e where "targetCheck env (appName a) d fs = (Inl e, f, ev)" and "r = Inl e"
  | (children) f0 ev0 e evx where "targetCheck env (appName a) d fs = (Inr (), f0, ev0)"
      and "bnd (createVite env (packageManagerOf a) (appName a) cwd)
             (\<lambda>_. if installOf a then installDeps env (packageManagerOf a) d else ret ()) f0
           = (Inl e, f, evx)"
      and "r = Inl e" and "ev = ev0 @ evx"
  | (folders) f0 ev0 f1 evx e ev4 where "targetCheck env (appName a) d fs = (Inr (), f0, ev0)"
      and "bnd (createVite env (packageManagerOf a) (appName a) cwd)
             (\<lambda>_. if installOf a then installDeps env (packageManagerOf a) d else ret ()) f0
           = (Inr (), f1, evx)"
      and "createFolders env d f1 = (Inl e, f, ev4)"
      and "r = Inl e" and "ev = ev0 @ evx @ ev4"
  | (files) f0 ev0 f1 evx f4 ev4 e ev5 where "targetCheck env (appName a) d fs = (Inr (), f0, ev0)"
      and "bnd (createVite env (packageManagerOf a) (appName a) cwd)
             (\<lambda>_. if installOf a then installDeps env (packageManagerOf a) d else ret ()) f0
           = (Inr (), f1, evx)"
      and "createFolders env d f1 = (Inr (), f4, ev4)"
      and "writeFiles env d f4 = (Inl e, f, ev5)"
      and "r = Inl e" and "ev = ev0 @ evx @ ev4 @ ev5"
  | (finished) f0 ev0 f1 evx f4 ev4 ev5 where "targetCheck env (appName a) d fs = (Inr (), f0, ev0)"
      and "bnd (createVite env (packageManagerOf a) (appName a) cwd)
             (\<lambda>_. if installOf a then installDeps env (packageManagerOf a) d else ret ()) f0
           = (Inr (), f1, evx)"
      and "createFolders env d f1 = (Inr (), f4, ev4)"
      and "writeFiles env d f4 = (Inr (), f, ev5)"
      and "r = Inr ()" and "ev = ev0 @ evx @ ev4 @ ev5 @ [(ConsoleLog finalTip, None)]"
proof -
  have eq: "scaffold env a cwd =
      bnd (targetCheck env (appName a) d) (\<lambda>_.
      bnd (bnd (createVite env (packageManagerOf a) (appName a) cwd)
             (\<lambda>_. if installOf a then installDeps env (packageManagerOf a) d else ret ())) (\<lambda>_.
      bnd (createFolders env d) (\<lambda>_.
      bnd (writeFiles env d) (\<lambda>_. consoleLog finalTip))))"
    by (simp add: scaffold_def Let_def d bnd_assoc)
  from run have "bnd (targetCheck env (appName a) d) (\<lambda>_.
      bnd (bnd (createVite env (packageManagerOf a) (appName a) cwd)
             (\<lambda>_. if installOf a then installDeps env (packageManagerOf a) d else ret ())) (\<lambda>_.
      bnd (createFolders env d) (\<lambda>_.
      bnd (writeFiles env d) (\<lambda>_. consoleLog finalTip)))) fs = (r, f, ev)"
    by (simp only: eq)
  then show thesis
  proof (cases rule: bnd_cases)
    case (rejected e)
    then show ?thesis by (rule check)
  next
    case s1: (fulfilled u0 f0 ev0 rest0)
    from s1(2) show ?thesis
    proof (cases rule: bnd_cases)
      case (rejected e)
      with s1 show ?thesis by (intro children) auto
    next
      case s2: (fulfilled u1 f1 evx rest1)
      from s2(2) show ?thesis
      proof (cases rule: bnd_cases)
        case (rejected e)
        with s1 s2 show ?thesis by (intro folders) auto
      next
        case s3: (fulfilled u4 f4 ev4 rest4)
        from s3(2) show ?thesis
        proof (cases rule: bnd_cases)
          case (rejected e)
          with s1 s2 s3 show ?thesis by (intro files) auto
        next
          case s4: (fulfilled u5 f5 ev5 rest5)
          from s4(2) have "r = Inr ()" "f = f5" "rest5 = [(ConsoleLog finalTip, None)]"
            by (simp_all add: consoleLog_def)
          with s1 s2 s3 s4 show ?thesis by (intro finished) auto
        qed
      qed
    qed
  qed
qed

section \<open>When the directories and files can be created\<close>

lemma in_ancestors:
  "q \<in> set (ancestors p) \<longleftrightarrow> (\<exists>k. 1 \<le> k \<and> k \<le> length p \<and> q = take k p)"
  unfolding ancestors_def set_map set_upt image_iff by auto

lemma set_ancestors: "set (ancestors p) = {q. q \<noteq> [] \<and> prefix q p}"
proof (intro set_eqI iffI)
  fix q assume "q \<in> set (ancestors p)"
  then obtain k where k: "1 \<le> k" "k \<le> length p" and q: "q = take k p"
    unfolding in_ancestors by blast
  from k have "p \<noteq> []" by auto
  with k q show "q \<in> {q. q \<noteq> [] \<and> prefix q p}"
    by (auto simp: take_is_prefix)
next
  fix q assume "q \<in> {q. q \<noteq> [] \<and> prefix q p}"
  then obtain r where p: "p = q @ r" and ne: "q \<noteq> []"
    by (auto simp: prefix_def)
  then have "1 \<le> length q \<and> length q \<le> length p \<and> q = take (length q) p"
    by (auto simp: Suc_le_eq)
  then show "q \<in> set (ancestors p)"
    unfolding in_ancestors by blast
qed

lemma ancestors_under:
  assumes "q \<in> set (ancestors (d @ rel))"
  shows "q \<in> set (ancestors d) \<or> strict_prefix d q"
proof -
  from assms have ne: "q \<noteq> []" and pre: "prefix q (d @ rel)"
    by (simp_all add: set_ancestors)
  from pre have "prefix q d \<or> (\<exists>us. q = d @ us \<and> prefix us rel)"
    by (simp add: prefix_append)
  then show ?thesis
  proof
    assume "prefix q d"
    with ne show ?thesis by (simp add: set_ancestors)
  next
    assume "\<exists>us. q = d @ us \<and> prefix us rel"
    then obtain us where q: "q = d @ us" by blast
    show ?thesis
    proof (cases "us = []")
      case True
      with q ne show ?thesis by (simp add: set_ancestors)
    next
      case False
      with q show ?thesis by (auto simp: strict_prefix_def)
    qed
  qed
qed

lemma mkdirp_ok:
  "\<forall>q \<in> set (ancestors p). \<not> is_file (lookup fs q) \<Longrightarrow> mkdirRefused env p fs = None \<Longrightarrow>
   mkdirp env p fs = (Inr (), foldl mkdir_missing fs (ancestors p), [(Mkdirp p, None)])"
  by (simp add: mkdirp_def list_ex_iff)

lemma is_file_foldl_mkdir:
  "is_file (lookup (foldl mkdir_missing fs qs) q) = is_file (lookup fs q)"
  by (simp add: lookup_foldl_mkdir is_file_def)

lemma promiseAll_mkdirp_ok:
  "\<forall>p \<in> set ps. \<forall>q \<in> set (ancestors p). \<not> is_file (lookup fs q) \<Longrightarrow>
   \<forall>p g. mkdirRefused env p g = None \<Longrightarrow>
   \<exists>f. promiseAll (map (mkdirp env) ps) fs = (Inr (), f, map (\<lambda>p. (Mkdirp p, None)) ps)
     \<and> (\<forall>q. lookup f q =
           (if (\<exists>p \<in> set ps. q \<in> set (ancestors p)) \<and> lookup fs q = None then Some Dir
            else lookup fs q))"
proof (induction ps arbitrary: fs)
  case Nil
  show ?case by simp
next
  case (Cons p ps)
  let ?f1 = "foldl mkdir_missing fs (ancestors p)"
  from Cons.prems have m: "mkdirp env p fs = (Inr (), ?f1, [(Mkdirp p, None)])"
    by (simp add: mkdirp_ok)
  from Cons.prems have "\<forall>p \<in> set ps. \<forall>q \<in> set (ancestors p). \<not> is_file (lookup ?f1 q)"
    by (simp add: is_file_foldl_mkdir)
  from Cons.IH [OF this Cons.prems(2)] obtain f
    where rest: "promiseAll (map (mkdirp env) ps) ?f1 = (Inr (), f, map (\<lambda>p. (Mkdirp p, None)) ps)"
      and lk: "\<forall>q. lookup f q =
           (if (\<exists>p \<in> set ps. q \<in> set (ancestors p)) \<and> lookup ?f1 q = None then Some Dir
            else lookup ?f1 q)"
    by blast
  from m rest have "promiseAll (map (mkdirp env) (p # ps)) fs
      = (Inr (), f, map (\<lambda>p. (Mkdirp p, None)) (p # ps))"
    by simp
  moreover from lk have "\<forall>q. lookup f q =
           (if (\<exists>p' \<in> set (p # ps). q \<in> set (ancestors p')) \<and> lookup fs q = None then Some Dir
            else lookup fs q)"
    by (auto simp: lookup_foldl_mkdir)
  ultimately show ?case by blast
qed

lemma createFolders_ok:
  assumes "\<forall>rel \<in> set fixedDirs. \<forall>q \<in> set (ancestors (d @ rel)). \<not> is_file (lookup fs q)"
    and quiet: "\<forall>p g. mkdirRefused env p g = None"
  shows "\<exists>f. createFolders env d fs = (Inr (), f, map (\<lambda>rel. (Mkdirp (d @ rel), None)) fixedDirs)
     \<and> (\<forall>q. lookup f q =
           (if (\<exists>rel \<in> set fixedDirs. q \<in> set (ancestors (d @ rel))) \<and> lookup fs q = None
            then Some Dir else lookup fs q))"
proof -
  have split: "fixedDirs = butlast fixedDirs @ [last fixedDirs]"
    by (simp add: fixedDirs_def)
  let ?ps = "map (\<lambda>rel. d @ rel) (butlast fixedDirs)"
  let ?p = "d @ last fixedDirs"
  have all: "\<forall>rel \<in> set (butlast fixedDirs @ [last fixedDirs]). \<forall>q \<in> set (ancestors (d @ rel)). \<not> is_file (lookup fs q)"
    using assms(1) split by simp
  then have "\<forall>p \<in> set ?ps. \<forall>q \<in> set (ancestors p). \<not> is_file (lookup fs q)"
    by auto
  from promiseAll_mkdirp_ok [OF this quiet] obtain f1
    where pa: "promiseAll (map (mkdirp env) ?ps) fs = (Inr (), f1, map (\<lambda>p. (Mkdirp p, None)) ?ps)"
      and lk1: "\<forall>q. lookup f1 q =
           (if (\<exists>p \<in> set ?ps. q \<in> set (ancestors p)) \<and> lookup fs q = None then Some Dir
            else lookup fs q)"
    by blast
  from all have nf: "\<forall>q \<in> set (ancestors ?p). \<not> is_file (lookup fs q)"
    by auto
  have "\<forall>q \<in> set (ancestors ?p). \<not> is_file (lookup f1 q)"
  proof
    fix q assume "q \<in> set (ancestors ?p)"
    with nf have "\<not> is_file (lookup fs q)" by blast
    with lk1 show "\<not> is_file (lookup f1 q)" by (auto simp: is_file_def)
  qed
  then have m: "mkdirp env ?p f1 = (Inr (), foldl mkdir_missing f1 (ancestors ?p), [(Mkdirp ?p, None)])"
    using quiet by (simp add: mkdirp_ok)
  let ?f = "foldl mkdir_missing f1 (ancestors ?p)"
  have run: "createFolders env d fs =
      (Inr (), ?f, map (\<lambda>rel. (Mkdirp (d @ rel), None)) (butlast fixedDirs @ [last fixedDirs]))"
    using pa m by (simp add: createFolders_eq bnd_def comp_def)
  have "\<forall>q. lookup ?f q =
           (if (\<exists>rel \<in> set (butlast fixedDirs @ [last fixedDirs]). q \<in> set (ancestors (d @ rel))) \<and> lookup fs q = None
            then Some Dir else lookup fs q)"
    using lk1 by (auto simp: lookup_foldl_mkdir)
  with run split show ?thesis by auto
qed

lemma writeFile_ok:
  "lookup fs p \<noteq> Some Dir \<Longrightarrow> lookup fs (butlast p) = Some Dir \<Longrightarrow>
   writeRefused env p c fs = None \<Longrightarrow>
   writeFile env p c fs = (Inr (), AList.update p (File c) fs, [(WriteFile p c, None)])"
  by (auto simp: writeFile_def split: option.splits node.splits)

lemma seq_writeFile_ok:
  "\<forall>(p, c) \<in> set pcs. lookup fs p \<noteq> Some Dir \<and> lookup fs (butlast p) = Some Dir \<Longrightarrow>
   \<forall>p c g. writeRefused env p c g = None \<Longrightarrow>
   \<exists>f. seq (map (\<lambda>(p, c). writeFile env p c) pcs) fs = (Inr (), f, map (\<lambda>(p, c). (WriteFile p c, None)) pcs)"
proof (induction pcs arbitrary: fs)
  case Nil
  show ?case by (simp add: ret_def)
next
  case (Cons pc pcs)
  obtain p c where pc: "pc = (p, c)" by (cases pc)
  let ?f1 = "AList.update p (File c) fs"
  from Cons.prems pc have pre: "lookup fs p \<noteq> Some Dir" "lookup fs (butlast p) = Some Dir"
    by auto
  then have w: "writeFile env p c fs = (Inr (), ?f1, [(WriteFile p c, None)])"
    using Cons.prems(2) by (simp add: writeFile_ok)
  from pre have "p \<noteq> []" by (auto simp: lookup_root)
  then have same: "\<And>q. (lookup ?f1 q = Some Dir) = (lookup fs q = Some Dir)"
    using pre by (auto simp: lookup_update)
  from Cons.prems(1) have "\<forall>(p, c) \<in> set pcs. lookup ?f1 p \<noteq> Some Dir \<and> lookup ?f1 (butlast p) = Some Dir"
    by (auto simp: same)
  from Cons.IH [OF this Cons.prems(2)] obtain f
    where "seq (map (\<lambda>(p, c). writeFile env p c) pcs) ?f1 = (Inr (), f, map (\<lambda>(p, c). (WriteFile p c, None)) pcs)"
    by blast
  with w pc show ?case by (simp add: bnd_def)
qed

section \<open>A fresh target and quiet children\<close>

lemma fixedFiles_parents:
  "\<forall>(rel, c) \<in> set fixedFiles.
     rel \<noteq> [] \<and> butlast rel \<noteq> []
     \<and> (\<exists>rel' \<in> set fixedDirs. prefix (butlast rel) rel')
     \<and> \<not> (\<exists>rel' \<in> set fixedDirs. prefix rel rel')"
  by (simp add: fixedFiles_def fixedDirs_def)

lemma layout_ok:
  assumes anc: "\<forall>q \<in> set (ancestors d). \<not> is_file (lookup fs q)"
    and under: "\<forall>q. strict_prefix d q \<longrightarrow> lookup fs q = None"
    and mr: "\<forall>p g. mkdirRefused env p g = None"
    and wr: "\<forall>p c g. writeRefused env p c g = None"
  shows "\<exists>f4 f. createFolders env d fs = (Inr (), f4, map (\<lambda>rel. (Mkdirp (d @ rel), None)) fixedDirs)
     \<and> writeFiles env d f4 = (Inr (), f, map (\<lambda>(rel, c). (WriteFile (d @ rel) c, None)) fixedFiles)"
proof -
  have "\<forall>rel \<in> set fixedDirs. \<forall>q \<in> set (ancestors (d @ rel)). \<not> is_file (lookup fs q)"
  proof (intro ballI)
    fix rel q assume "q \<in> set (ancestors (d @ rel))"
    then have "q \<in> set (ancestors d) \<or> strict_prefix d q" by (rule ancestors_under)
    with anc under show "\<not> is_file (lookup fs q)" by (auto simp: is_file_def)
  qed
  from createFolders_ok [OF this mr] obtain f4
    where cf: "createFolders env d fs = (Inr (), f4, map (\<lambda>rel. (Mkdirp (d @ rel), None)) fixedDirs)"
      and lk: "\<And>q. lookup f4 q =
           (if (\<exists>rel \<in> set fixedDirs. q \<in> set (ancestors (d @ rel))) \<and> lookup fs q = None
            then Some Dir else lookup fs q)"
    by blast
  have "\<forall>(p, c) \<in> set (map (\<lambda>(rel, c). (d @ rel, c)) fixedFiles).
          lookup f4 p \<noteq> Some Dir \<and> lookup f4 (butlast p) = Some Dir"
  proof -
    have "lookup f4 (d @ rel) \<noteq> Some Dir \<and> lookup f4 (butlast (d @ rel)) = Some Dir"
      if "(rel, c) \<in> set fixedFiles" for rel c
    proof -
      from that fixedFiles_parents
      have ne: "rel \<noteq> []" and bne: "butlast rel \<noteq> []"
        and par: "\<exists>rel' \<in> set fixedDirs. prefix (butlast rel) rel'"
        and nodir: "\<not> (\<exists>rel' \<in> set fixedDirs. prefix rel rel')"
        by auto
      from ne under have n1: "lookup fs (d @ rel) = None"
        by (simp add: strict_prefix_def)
      from bne under have n2: "lookup fs (d @ butlast rel) = None"
        by (simp add: strict_prefix_def)
      from nodir have "\<not> (\<exists>rel' \<in> set fixedDirs. d @ rel \<in> set (ancestors (d @ rel')))"
        by (simp add: set_ancestors)
      with n1 have a: "lookup f4 (d @ rel) = None" by (simp add: lk)
      from par bne have "\<exists>rel' \<in> set fixedDirs. d @ butlast rel \<in> set (ancestors (d @ rel'))"
        by (simp add: set_ancestors)
      with n2 have b: "lookup f4 (d @ butlast rel) = Some Dir" by (simp add: lk)
      from a b ne show ?thesis by (simp add: butlast_append)
    qed
    then show ?thesis by auto
  qed
  from seq_writeFile_ok [OF this wr] obtain f
    where "seq (map (\<lambda>(p, c). writeFile env p c) (map (\<lambda>(rel, c). (d @ rel, c)) fixedFiles)) f4
        = (Inr (), f, map (\<lambda>(p, c). (WriteFile p c, None)) (map (\<lambda>(rel, c). (d @ rel, c)) fixedFiles))"
    by blast
  then have "writeFiles env d f4 = (Inr (), f, map (\<lambda>(rel, c). (WriteFile (d @ rel) c, None)) fixedFiles)"
    by (simp add: writeFiles_eq comp_def case_prod_unfold)
  with cf show ?thesis by blast
qed

lemma targetCheck_creates:
  assumes "lookup fs d = None" and "\<forall>q \<in> set (ancestors d). \<not> is_file (lookup fs q)"
    and "mkdirRefused env d fs = None"
  shows "targetCheck env nm d fs =
    (Inr (), foldl mkdir_missing fs (ancestors d), [(PathExists d, None), (Mkdirp d, None)])"
  using assms by (simp add: targetCheck_missing mkdirp_ok)

lemma scaffold_quiet_succeeds:
  assumes d: "d = path_resolve cwd (appName a)"
    and missing: "lookup fs d = None"
    and anc: "\<forall>q \<in> set (ancestors d). \<not> is_file (lookup fs q)"
    and under: "\<forall>q. strict_prefix d q \<longrightarrow> lookup fs q = None"
    and ch: "\<forall>c as wd g. child env c as wd g = (Exited 0, g)"
    and mr: "\<forall>p g. mkdirRefused env p g = None"
    and wr: "\<forall>p c g. writeRefused env p c g = None"
  shows "fst (scaffold env a cwd fs) = Inr ()"
proof -
  let ?f0 = "foldl mkdir_missing fs (ancestors d)"
  have tc: "targetCheck env (appName a) d fs = (Inr (), ?f0, [(PathExists d, None), (Mkdirp d, None)])"
    using missing anc mr by (simp add: targetCheck_creates)
  have anc0: "\<forall>q \<in> set (ancestors d). \<not> is_file (lookup ?f0 q)"
    using anc by (simp add: is_file_foldl_mkdir)
  have under0: "\<forall>q. strict_prefix d q \<longrightarrow> lookup ?f0 q = None"
  proof (intro allI impI)
    fix q assume s: "strict_prefix d q"
    then have "q \<notin> set (ancestors d)"
      by (auto simp: set_ancestors)
    with s under show "lookup ?f0 q = None"
      by (simp add: lookup_foldl_mkdir)
  qed
  obtain gc ga where g: "generatorCommand (packageManagerOf a) (appName a) = (gc, ga)"
    by (cases "generatorCommand (packageManagerOf a) (appName a)") auto
  have ch: "\<exists>evx. bnd (createVite env (packageManagerOf a) (appName a) cwd)
             (\<lambda>_. if installOf a then installDeps env (packageManagerOf a) d else ret ()) ?f0
           = (Inr (), ?f0, evx)"
    by (simp add: children_chain [OF g, where env = env and ?x1.0 = "Exited 0" and ?x2.0 = "Exited 0"
          and ?x3.0 = "Exited 0" and ?x4.0 = "Exited 0" and ?f1.0 = ?f0 and ?f2.0 = ?f0
          and ?f3.0 = ?f0 and ?f4.0 = ?f0] ch)
  then obtain evx where ch': "bnd (createVite env (packageManagerOf a) (appName a) cwd)
             (\<lambda>_. if installOf a then installDeps env (packageManagerOf a) d else ret ()) ?f0
           = (Inr (), ?f0, evx)" by blast
  from layout_ok [OF anc0 under0 mr wr] obtain f4 f ev4 ev5
    where cf: "createFolders env d ?f0 = (Inr (), f4, ev4)" and wf: "writeFiles env d f4 = (Inr (), f, ev5)"
    by blast
  have eq: "scaffold env a cwd =
      bnd (targetCheck env (appName a) d) (\<lambda>_.
      bnd (bnd (createVite env (packageManagerOf a) (appName a) cwd)
             (\<lambda>_. if installOf a then installDeps env (packageManagerOf a) d else ret ())) (\<lambda>_.
      bnd (createFolders env d) (\<lambda>_.
      bnd (writeFiles env d) (\<lambda>_. consoleLog finalTip))))"
    by (simp add: scaffold_def Let_def d bnd_assoc)
  show ?thesis
    unfolding eq
    by (simp add: bnd_Inr [where m = "targetCheck env (appName a) d", OF tc]
        bnd_Inr [where m = "bnd (createVite env (packageManagerOf a) (appName a) cwd)
             (\<lambda>_. if installOf a then installDeps env (packageManagerOf a) d else ret ())", OF ch']
        bnd_Inr [where m = "createFolders env d", OF cf]
        bnd_Inr [where m = "writeFiles env d", OF wf] consoleLog_def)
qed

section \<open>The example run\<close>

lemma quiet_env:
  "\<forall>c as wd g. child quietChild c as wd g = (Exited 0, g)"
  "\<forall>p g. mkdirRefused quietChild p g = None"
  "\<forall>p c g. writeRefused quietChild p c g = None"
  by (simp_all add: quietChild_def)

lemma failing_env:
  "\<forall>p g. mkdirRefused (failingChild bad) p g = None"
  "\<forall>p c g. writeRefused (failingChild bad) p c g = None"
  by (simp_all add: failingChild_def)

lemma demo_name: "appName demoArgs = ''demo''"
  by (simp add: demoArgs_def)

lemma demo_dir: "path_resolve home ''demo'' = [''home'', ''dev'', ''demo'']"
  by (simp add: path_resolve_def home_def segments_def norm_step_def isAbsolute_def)

section \<open>The target directory\<close>

text \<open>
  C1. When the target directory, resolved from \<open>appName\<close> against the working
  directory, exists and has at least one entry, \<open>scaffold\<close> is rejected with an error
  whose message contains the requested name. Nothing but the existence check and the
  directory listing has happened by then: no child process was spawned, no directory
  or file was created or written, and the file system is the one it started from.
\<close>

theorem nonempty_target_rejected:
  assumes "lookup fs (path_resolve cwd (appName a)) = Some Dir"
    and "entries fs (path_resolve cwd (appName a)) \<noteq> []"
  shows "\<exists>msg ev. scaffold env a cwd fs = (Inl (Error msg), fs, ev)
      \<and> message (Error msg) = msg
      \<and> (\<exists>pre suf. msg = pre @ appName a @ suf)
      \<and> ev = [(PathExists (path_resolve cwd (appName a)), None),
               (Readdir (path_resolve cwd (appName a)), None)]
      \<and> spawned ev = [] \<and> written ev = []"
proof -
  let ?d = "path_resolve cwd (appName a)"
  have "targetCheck env (appName a) ?d fs =
     (Inl (Error (notEmptyMessage (appName a))), fs, [(PathExists ?d, None), (Readdir ?d, None)])"
    using assms by (rule targetCheck_nonempty)
  then have "scaffold env a cwd fs =
     (Inl (Error (notEmptyMessage (appName a))), fs, [(PathExists ?d, None), (Readdir ?d, None)])"
    by (simp add: scaffold_def Let_def bnd_def)
  moreover have "\<exists>pre suf. notEmptyMessage (appName a) = pre @ appName a @ suf"
    unfolding notEmptyMessage_def by (metis append.assoc)
  ultimately show ?thesis
    by (simp add: spawned_def written_def)
qed

theorem nonempty_target_rejected_witness:
  "lookup usedDemoFs (path_resolve home (appName demoArgs)) = Some Dir
   \<and> entries usedDemoFs (path_resolve home (appName demoArgs)) = [''notes.txt'']
   \<and> (\<exists>msg. scaffold quietChild demoArgs home usedDemoFs =
         (Inl (Error msg), usedDemoFs,
          [(PathExists [''home'', ''dev'', ''demo''], None),
           (Readdir [''home'', ''dev'', ''demo''], None)])
       \<and> (\<exists>pre suf. msg = pre @ ''demo'' @ suf))"
proof -
  note nm = demo_name and d2 = demo_dir
  have d: "path_resolve home (appName demoArgs) = [''home'', ''dev'', ''demo'']"
    by (simp add: nm d2)
  have h1: "lookup usedDemoFs (path_resolve home (appName demoArgs)) = Some Dir"
    unfolding d by (simp add: lookup_def usedDemoFs_def)
  have h2: "entries usedDemoFs (path_resolve home (appName demoArgs)) = [''notes.txt'']"
    unfolding d by (simp add: entries_def usedDemoFs_def)
  then have h2': "entries usedDemoFs (path_resolve home (appName demoArgs)) \<noteq> []"
    by simp
  from nonempty_target_rejected [OF h1 h2', of quietChild]
  have "\<exists>msg. scaffold quietChild demoArgs home usedDemoFs =
         (Inl (Error msg), usedDemoFs,
          [(PathExists [''home'', ''dev'', ''demo''], None),
           (Readdir [''home'', ''dev'', ''demo''], None)])
       \<and> (\<exists>pre suf. msg = pre @ ''demo'' @ suf)"
    unfolding nm d2 by blast
  with h1 h2 show ?thesis by blast
qed

section \<open>The generator\<close>

lemma createVite_first:
  assumes "generatorCommand pm nm = (gc, ga)"
  shows "\<exists>more. snd (snd (bnd (createVite env pm nm cwd) k f0)) =
     (Execa gc ga cwd,
      if failed (fst (child env gc ga cwd f0)) then Some (ExecaError gc ga (fst (child env gc ga cwd f0)))
      else None) # more"
  using assms by (simp add: bnd_def createVite_def run_def split: prod.splits)

lemma homeFs_demo_missing: "lookup homeFs [''home'', ''dev'', ''demo''] = None"
  by (simp add: lookup_def homeFs_def)

lemma homeFs_no_file: "\<not> is_file (lookup homeFs q)"
  by (simp add: lookup_def homeFs_def is_file_def)

lemma homeFs_nothing_under:
  "strict_prefix [''home'', ''dev'', ''demo''] q \<Longrightarrow> lookup homeFs q = None"
  by (auto simp: lookup_def homeFs_def)

lemma homeFs_mkdir_demo:
  "foldl mkdir_missing homeFs (ancestors [''home'', ''dev'', ''demo'']) = emptyDemoFs"
  by (simp add: ancestors_def upt_rec mkdir_missing_def lookup_def homeFs_def emptyDemoFs_def)

lemma homeFs_targetCheck:
  assumes "mkdirRefused env [''home'', ''dev'', ''demo''] homeFs = None"
  shows "targetCheck env nm [''home'', ''dev'', ''demo''] homeFs =
    (Inr (), emptyDemoFs,
     [(PathExists [''home'', ''dev'', ''demo''], None), (Mkdirp [''home'', ''dev'', ''demo''], None)])"
  using targetCheck_creates [of homeFs "[''home'', ''dev'', ''demo'']" env nm] assms
  by (simp add: homeFs_demo_missing homeFs_no_file homeFs_mkdir_demo)

lemma quiet_targetCheck:
  "targetCheck quietChild nm [''home'', ''dev'', ''demo''] homeFs =
    (Inr (), emptyDemoFs,
     [(PathExists [''home'', ''dev'', ''demo''], None), (Mkdirp [''home'', ''dev'', ''demo''], None)])"
  by (rule homeFs_targetCheck) (simp add: quiet_env)

lemma generator_next:
  assumes tc: "targetCheck env (appName a) (path_resolve cwd (appName a)) fs = (Inr (), f0, ev0)"
    and g: "generatorCommand (packageManagerOf a) (appName a) = (gc, ga)"
  shows "\<exists>more. snd (snd (scaffold env a cwd fs)) =
          ev0 @ (Execa gc ga cwd,
                 if failed (fst (child env gc ga cwd f0)) then Some (ExecaError gc ga (fst (child env gc ga cwd f0)))
                 else None) # more"
proof -
  let ?k = "\<lambda>_::unit. bnd (if installOf a then installDeps env (packageManagerOf a) (path_resolve cwd (appName a)) else ret ()) (\<lambda>_.
         bnd (createFolders env (path_resolve cwd (appName a))) (\<lambda>_.
         bnd (writeFiles env (path_resolve cwd (appName a))) (\<lambda>_.
         consoleLog finalTip)))"
  from createVite_first [OF g, of env cwd ?k f0]
  obtain more where more: "snd (snd (bnd (createVite env (packageManagerOf a) (appName a) cwd) ?k f0)) =
     (Execa gc ga cwd,
      if failed (fst (child env gc ga cwd f0)) then Some (ExecaError gc ga (fst (child env gc ga cwd f0)))
      else None) # more"
    by blast
  have "snd (snd (scaffold env a cwd fs)) =
      ev0 @ snd (snd (bnd (createVite env (packageManagerOf a) (appName a) cwd) ?k f0))"
    using tc by (simp add: scaffold_def Let_def bnd_def [of "targetCheck env (appName a) (path_resolve cwd (appName a))"] split: prod.splits)
  with more show ?thesis
    by simp
qed

text \<open>
  C3. Let the target check have passed and the caller have given the package manager
  \<open>pm\<close>. The next thing the run does is to spawn the generator in the working directory of
  the caller: \<open>npm create vite@latest app -- --template react\<close> when \<open>pm\<close> is npm,
  \<open>pnpm create vite app --template react\<close> when it is pnpm,
  \<open>yarn create vite app --template react\<close> when it is yarn,
  \<open>bun x create-vite app --template react\<close> when it is bun, and the npm command with the
  npm arguments when it is anything else. The spawn is recorded as rejected exactly when
  the child fails; no other value of \<open>pm\<close> makes the run fail before it.
\<close>

theorem generator_invocation:
  assumes "targetCheck env (appName a) (path_resolve cwd (appName a)) fs = (Inr (), f0, ev0)"
    and "packageManager a = Some pm"
    and "gc = (if pm = ''pnpm'' then ''pnpm'' else if pm = ''yarn'' then ''yarn''
               else if pm = ''bun'' then ''bun'' else ''npm'')"
    and "ga = (if pm = ''pnpm'' \<or> pm = ''yarn'' then [''create'', ''vite'', appName a, ''--template'', ''react'']
               else if pm = ''bun'' then [''x'', ''create-vite'', appName a, ''--template'', ''react'']
               else [''create'', ''vite@latest'', appName a, ''--'', ''--template'', ''react''])"
  shows "spawned ev0 = []
    \<and> (\<exists>more. snd (snd (scaffold env a cwd fs)) =
          ev0 @ (Execa gc ga cwd,
                 if failed (fst (child env gc ga cwd f0)) then Some (ExecaError gc ga (fst (child env gc ga cwd f0)))
                 else None) # more)"
proof -
  from assms(2) have pm: "packageManagerOf a = pm"
    by (simp add: packageManagerOf_def)
  have g: "generatorCommand (packageManagerOf a) (appName a) = (gc, ga)"
    unfolding pm assms(3) assms(4) by (simp add: generatorCommand_def viteArgsByPM_def)
  have quiet: "spawned ev0 = []"
    using assms(1) by (rule targetCheck_shape(1))
  from quiet generator_next [OF assms(1) g] show ?thesis
    by blast
qed

lemma demo_with:
  "appName (demoArgs\<lparr>packageManager := Some pm\<rparr>) = ''demo''"
  "packageManager (demoArgs\<lparr>packageManager := Some pm\<rparr>) = Some pm"
  by (simp_all add: demoArgs_def)

theorem generator_invocation_witness:
  "(\<exists>more. snd (snd (scaffold quietChild (demoArgs\<lparr>packageManager := Some ''npm''\<rparr>) home homeFs)) =
        [(PathExists [''home'', ''dev'', ''demo''], None), (Mkdirp [''home'', ''dev'', ''demo''], None),
         (Execa ''npm'' [''create'', ''vite@latest'', ''demo'', ''--'', ''--template'', ''react'']
            [''home'', ''dev''], None)] @ more)
   \<and> (\<exists>more. snd (snd (scaffold quietChild (demoArgs\<lparr>packageManager := Some ''pnpm''\<rparr>) home homeFs)) =
        [(PathExists [''home'', ''dev'', ''demo''], None), (Mkdirp [''home'', ''dev'', ''demo''], None),
         (Execa ''pnpm'' [''create'', ''vite'', ''demo'', ''--template'', ''react'']
            [''home'', ''dev''], None)] @ more)
   \<and> (\<exists>more. snd (snd (scaffold quietChild (demoArgs\<lparr>packageManager := Some ''yarn''\<rparr>) home homeFs)) =
        [(PathExists [''home'', ''dev'', ''demo''], None), (Mkdirp [''home'', ''dev'', ''demo''], None),
         (Execa ''yarn'' [''create'', ''vite'', ''demo'', ''--template'', ''react'']
            [''home'', ''dev''], None)] @ more)
   \<and> (\<exists>more. snd (snd (scaffold quietChild (demoArgs\<lparr>packageManager := Some ''bun''\<rparr>) home homeFs)) =
        [(PathExists [''home'', ''dev'', ''demo''], None), (Mkdirp [''home'', ''dev'', ''demo''], None),
         (Execa ''bun'' [''x'', ''create-vite'', ''demo'', ''--template'', ''react'']
            [''home'', ''dev''], None)] @ more)
   \<and> (\<exists>more. snd (snd (scaffold quietChild (demoArgs\<lparr>packageManager := Some ''deno''\<rparr>) home homeFs)) =
        [(PathExists [''home'', ''dev'', ''demo''], None), (Mkdirp [''home'', ''dev'', ''demo''], None),
         (Execa ''npm'' [''create'', ''vite@latest'', ''demo'', ''--'', ''--template'', ''react'']
            [''home'', ''dev''], None)] @ more)
   \<and> (\<exists>more. snd (snd (scaffold (failingChild [''create'', ''vite'', ''demo'', ''--template'', ''react''])
                          (demoArgs\<lparr>packageManager := Some ''yarn''\<rparr>) home homeFs)) =
        [(PathExists [''home'', ''dev'', ''demo''], None), (Mkdirp [''home'', ''dev'', ''demo''], None),
         (Execa ''yarn'' [''create'', ''vite'', ''demo'', ''--template'', ''react''] [''home'', ''dev''],
          Some (ExecaError ''yarn'' [''create'', ''vite'', ''demo'', ''--template'', ''react''] (Exited 1)))]
        @ more)"
proof -
  let ?bad = "failingChild [''create'', ''vite'', ''demo'', ''--template'', ''react'']"
  have tc: "targetCheck quietChild (appName (demoArgs\<lparr>packageManager := Some pm\<rparr>))
       (path_resolve home (appName (demoArgs\<lparr>packageManager := Some pm\<rparr>))) homeFs =
     (Inr (), emptyDemoFs,
      [(PathExists [''home'', ''dev'', ''demo''], None), (Mkdirp [''home'', ''dev'', ''demo''], None)])" for pm
    by (simp add: demo_with demo_dir quiet_targetCheck)
  have tc': "targetCheck ?bad (appName (demoArgs\<lparr>packageManager := Some pm\<rparr>))
       (path_resolve home (appName (demoArgs\<lparr>packageManager := Some pm\<rparr>))) homeFs =
     (Inr (), emptyDemoFs,
      [(PathExists [''home'', ''dev'', ''demo''], None), (Mkdirp [''home'', ''dev'', ''demo''], None)])" for pm
    by (simp add: demo_with demo_dir homeFs_targetCheck failing_env)
  note here = generator_invocation [OF tc demo_with(2) refl refl]
  from here [of "''npm''"]
  have npm: "\<exists>more. snd (snd (scaffold quietChild (demoArgs\<lparr>packageManager := Some ''npm''\<rparr>) home homeFs)) =
        [(PathExists [''home'', ''dev'', ''demo''], None), (Mkdirp [''home'', ''dev'', ''demo''], None),
         (Execa ''npm'' [''create'', ''vite@latest'', ''demo'', ''--'', ''--template'', ''react'']
            [''home'', ''dev''], None)] @ more"
    by (simp add: demo_with(1) quietChild_def home_def)
  from here [of "''pnpm''"]
  have pnpm: "\<exists>more. snd (snd (scaffold quietChild (demoArgs\<lparr>packageManager := Some ''pnpm''\<rparr>) home homeFs)) =
        [(PathExists [''home'', ''dev'', ''demo''], None), (Mkdirp [''home'', ''dev'', ''demo''], None),
         (Execa ''pnpm'' [''create'', ''vite'', ''demo'', ''--template'', ''react'']
            [''home'', ''dev''], None)] @ more"
    by (simp add: demo_with(1) quietChild_def home_def)
  from here [of "''yarn''"]
  have yarn: "\<exists>more. snd (snd (scaffold quietChild (demoArgs\<lparr>packageManager := Some ''yarn''\<rparr>) home homeFs)) =
        [(PathExists [''home'', ''dev'', ''demo''], None), (Mkdirp [''home'', ''dev'', ''demo''], None),
         (Execa ''yarn'' [''create'', ''vite'', ''demo'', ''--template'', ''react'']
            [''home'', ''dev''], None)] @ more"
    by (simp add: demo_with(1) quietChild_def home_def)
  from here [of "''bun''"]
  have bun: "\<exists>more. snd (snd (scaffold quietChild (demoArgs\<lparr>packageManager := Some ''bun''\<rparr>) home homeFs)) =
        [(PathExists [''home'', ''dev'', ''demo''], None), (Mkdirp [''home'', ''dev'', ''demo''], None),
         (Execa ''bun'' [''x'', ''create-vite'', ''demo'', ''--template'', ''react'']
            [''home'', ''dev''], None)] @ more"
    by (simp add: demo_with(1) quietChild_def home_def)
  from here [of "''deno''"]
  have deno: "\<exists>more. snd (snd (scaffold quietChild (demoArgs\<lparr>packageManager := Some ''deno''\<rparr>) home homeFs)) =
        [(PathExists [''home'', ''dev'', ''demo''], None), (Mkdirp [''home'', ''dev'', ''demo''], None),
         (Execa ''npm'' [''create'', ''vite@latest'', ''demo'', ''--'', ''--template'', ''react'']
            [''home'', ''dev''], None)] @ more"
    by (simp add: demo_with(1) quietChild_def home_def)
  from generator_invocation [OF tc' demo_with(2) refl refl, of "''yarn''"]
  have bad: "\<exists>more. snd (snd (scaffold ?bad (demoArgs\<lparr>packageManager := Some ''yarn''\<rparr>) home homeFs)) =
        [(PathExists [''home'', ''dev'', ''demo''], None), (Mkdirp [''home'', ''dev'', ''demo''], None),
         (Execa ''yarn'' [''create'', ''vite'', ''demo'', ''--template'', ''react''] [''home'', ''dev''],
          Some (ExecaError ''yarn'' [''create'', ''vite'', ''demo'', ''--template'', ''react''] (Exited 1)))]
        @ more"
    by (simp add: demo_with(1) failingChild_def home_def)
  from npm pnpm yarn bun deno bad show ?thesis
    by (intro conjI)
qed

section \<open>The files of a successful run\<close>

lemma seq_writeFile_keeps:
  "seq (map (\<lambda>(p, c). writeFile env p c) pcs) fs = (r, f, ev) \<Longrightarrow> q \<notin> fst ` set pcs \<Longrightarrow>
   lookup f q = lookup fs q"
proof (induction pcs arbitrary: fs r f ev)
  case Nil
  then show ?case by (simp add: ret_def)
next
  case (Cons pc pcs)
  obtain p c where pc: "pc = (p, c)" by (cases pc)
  from Cons.prems(1) have b: "bnd (writeFile env p c) (\<lambda>_. seq (map (\<lambda>(p, c). writeFile env p c) pcs)) fs = (r, f, ev)"
    by (simp add: pc)
  from Cons.prems(2) pc have qp: "q \<noteq> p" and q: "q \<notin> fst ` set pcs"
    by auto
  from b show ?case
  proof (cases rule: bnd_cases)
    case (rejected e)
    from rejected(1) show ?thesis
      by (cases rule: writeFile_cases) (use qp in \<open>auto simp: lookup_update\<close>)
  next
    case (fulfilled x f1 e1 e2)
    from Cons.IH [OF fulfilled(2) q] have "lookup f q = lookup f1 q" .
    moreover from fulfilled(1) have "lookup f1 q = lookup fs q"
      by (cases rule: writeFile_cases) (use qp in \<open>auto simp: lookup_update\<close>)
    ultimately show ?thesis by simp
  qed
qed

lemma seq_writeFile_stored:
  "seq (map (\<lambda>(p, c). writeFile env p c) pcs) fs = (Inr (), f, ev) \<Longrightarrow> distinct (map fst pcs) \<Longrightarrow>
   (p, c) \<in> set pcs \<Longrightarrow> lookup f p = Some (File c)"
proof (induction pcs arbitrary: fs ev)
  case Nil
  then show ?case by simp
next
  case (Cons pc pcs)
  obtain p0 c0 where pc: "pc = (p0, c0)" by (cases pc)
  from Cons.prems(1) have b: "bnd (writeFile env p0 c0) (\<lambda>_. seq (map (\<lambda>(p, c). writeFile env p c) pcs)) fs = (Inr (), f, ev)"
    by (simp add: pc)
  from Cons.prems(2) pc have fresh: "p0 \<notin> fst ` set pcs" and dist: "distinct (map fst pcs)"
    by auto
  from b show ?case
  proof (cases rule: bnd_cases)
    case (rejected e)
    then show ?thesis by simp
  next
    case (fulfilled x f1 e1 e2)
    show ?thesis
    proof (cases "(p, c) = (p0, c0)")
      case True
      from seq_writeFile_keeps [OF fulfilled(2) fresh] have "lookup f p0 = lookup f1 p0" .
      moreover from fulfilled(1) have "lookup f1 p0 = Some (File c0)"
        by (cases rule: writeFile_cases) (auto simp: lookup_update)
      ultimately show ?thesis using True by simp
    next
      case False
      with Cons.prems(3) pc have "(p, c) \<in> set pcs" by auto
      from Cons.IH [OF fulfilled(2) dist this] show ?thesis .
    qed
  qed
qed

lemma fixedFiles_distinct: "distinct (map fst fixedFiles)"
  by (simp add: fixedFiles_def)

lemma writeFiles_stored:
  assumes "writeFiles env d fs = (Inr (), f, ev)" and "(rel, c) \<in> set fixedFiles"
  shows "lookup f (d @ rel) = Some (File c)"
proof -
  let ?pcs = "map (\<lambda>(rel, c). (d @ rel, c)) fixedFiles"
  from assms(1) have run: "seq (map (\<lambda>(p, c). writeFile env p c) ?pcs) fs = (Inr (), f, ev)"
    by (simp add: writeFiles_eq comp_def case_prod_unfold)
  have "map fst ?pcs = map (\<lambda>rel. d @ rel) (map fst fixedFiles)"
    by (simp add: comp_def case_prod_unfold)
  then have dist: "distinct (map fst ?pcs)"
    using fixedFiles_distinct by (simp add: distinct_map inj_on_def)
  from assms(2) have "(d @ rel, c) \<in> set ?pcs" by force
  from seq_writeFile_stored [OF run dist this] show ?thesis .
qed

lemma concat_nonempty: "x \<noteq> [] \<Longrightarrow> concat (x # xs) \<noteq> []"
  by simp

lemma contents_nonempty:
  "homeLayout \<noteq> []" "helperFunctionsJs \<noteq> []" "screenMappersJsx \<noteq> []" "globalHook \<noteq> []"
  "initialState \<noteq> []" "globalSlice \<noteq> []" "store \<noteq> []" "customAxiosInstance \<noteq> []"
  "apiJs \<noteq> []" "setupJs \<noteq> []" "configJson \<noteq> []" "colorsScss \<noteq> []" "variablesScss \<noteq> []"
  "mixinsScss \<noteq> []" "mainScss \<noteq> []" "appJsx \<noteq> []" "mainJsx \<noteq> []"
  unfolding homeLayout_def helperFunctionsJs_def screenMappersJsx_def globalHook_def
    initialState_def globalSlice_def store_def customAxiosInstance_def apiJs_def setupJs_def
    configJson_def colorsScss_def variablesScss_def mixinsScss_def mainScss_def appJsx_def
    mainJsx_def
  by (rule concat_nonempty, simp)+

lemma configJson_text:
  "configJson = ''{\<newline>  '' @ [CHR 0x22] @ ''apiEndpoint'' @ [CHR 0x22] @ '': '' @ [CHR 0x22]
      @ ''http://localhost:8000'' @ [CHR 0x22] @ ''\<newline>}\<newline>''"
  by (simp add: configJson_def)

lemma configJson_parses:
  "json_object configJson = Some [(''apiEndpoint'', ''http://localhost:8000'')]"
  unfolding configJson_text by code_simp

lemma demo_run_ok:
  assumes "appName a = ''demo''"
  shows "fst (scaffold quietChild a home homeFs) = Inr ()"
proof (rule scaffold_quiet_succeeds)
  show "[''home'', ''dev'', ''demo''] = path_resolve home (appName a)"
    by (simp add: assms demo_dir)
  show "lookup homeFs [''home'', ''dev'', ''demo''] = None"
    by (rule homeFs_demo_missing)
  show "\<forall>q\<in>set (ancestors [''home'', ''dev'', ''demo'']). \<not> is_file (lookup homeFs q)"
    by (simp add: homeFs_no_file)
  show "\<forall>q. strict_prefix [''home'', ''dev'', ''demo''] q \<longrightarrow> lookup homeFs q = None"
    by (simp add: homeFs_nothing_under)
qed (rule quiet_env)+

lemma run_triple: "fst x = r \<Longrightarrow> x = (r, fst (snd x), snd (snd x))"
  by (cases x) auto

text \<open>
  C2. After a successful run, each of the seventeen files of the source is a regular
  file under the target directory with exactly the content of the source, which is
  not empty; \<open>public/config.json\<close> reads as a JSON object with the single member
  \<open>apiEndpoint\<close>, whose value is \<open>http://localhost:8000\<close>.
\<close>

theorem files_after_success:
  assumes "scaffold env a cwd fs = (Inr (), f, ev)"
  shows "(\<forall>(rel, c) \<in> set
            [([''src'', ''HomeLayout.jsx''], homeLayout),
             ([''src'', ''helpers'', ''helperFunctions.js''], helperFunctionsJs),
             ([''src'', ''helpers'', ''screenMappers.jsx''], screenMappersJsx),
             ([''src'', ''hooks'', ''useGlobalHook.js''], globalHook),
             ([''src'', ''redux'', ''initialState.js''], initialState),
             ([''src'', ''redux'', ''globalSlice.js''], globalSlice),
             ([''src'', ''redux'', ''store.js''], store),
             ([''src'', ''external'', ''customAxiosInstance.js''], customAxiosInstance),
             ([''src'', ''external'', ''api.js''], apiJs),
             ([''src'', ''__tests__'', ''setup.js''], setupJs),
             ([''public'', ''config.json''], configJson),
             ([''src'', ''styles'', ''abstract'', ''_colors.scss''], colorsScss),
             ([''src'', ''styles'', ''abstract'', ''_variables.scss''], variablesScss),
             ([''src'', ''styles'', ''abstract'', ''_mixins.scss''], mixinsScss),
             ([''src'', ''styles'', ''_main.scss''], mainScss),
             ([''src'', ''App.jsx''], appJsx),
             ([''src'', ''main.jsx''], mainJsx)].
          lookup f (path_resolve cwd (appName a) @ rel) = Some (File c) \<and> c \<noteq> [])
     \<and> json_object configJson = Some [(''apiEndpoint'', ''http://localhost:8000'')]"
proof -
  let ?d = "path_resolve cwd (appName a)"
  from assms obtain f4 ev5 where wf: "writeFiles env ?d f4 = (Inr (), f, ev5)"
    by (cases rule: scaffold_cases [where d = ?d]) auto
  have stored: "\<forall>(rel, c) \<in> set fixedFiles. lookup f (?d @ rel) = Some (File c)"
    using writeFiles_stored [OF wf] by auto
  have filled: "\<forall>(rel, c) \<in> set fixedFiles. c \<noteq> []"
    by (simp add: fixedFiles_def contents_nonempty)
  from stored filled
  have "\<forall>(rel, c) \<in> set fixedFiles. lookup f (?d @ rel) = Some (File c) \<and> c \<noteq> []"
    by auto
  then show ?thesis
    unfolding fixedFiles_def using configJson_parses by simp
qed

theorem files_after_success_witness:
  "scaffold quietChild demoArgs home homeFs =
     (Inr (), fst (snd (scaffold quietChild demoArgs home homeFs)),
      snd (snd (scaffold quietChild demoArgs home homeFs)))
   \<and> lookup (fst (snd (scaffold quietChild demoArgs home homeFs)))
        [''home'', ''dev'', ''demo'', ''public'', ''config.json''] = Some (File configJson)
   \<and> configJson \<noteq> []
   \<and> json_object configJson = Some [(''apiEndpoint'', ''http://localhost:8000'')]
   \<and> lookup (fst (snd (scaffold quietChild demoArgs home homeFs)))
        [''home'', ''dev'', ''demo'', ''src'', ''styles'', ''_main.scss''] = Some (File mainScss)
   \<and> mainScss \<noteq> []
   \<and> lookup (fst (snd (scaffold quietChild demoArgs home homeFs)))
        [''home'', ''dev'', ''demo'', ''src'', ''main.jsx''] = Some (File mainJsx)
   \<and> mainJsx \<noteq> []"
proof -
  have run: "scaffold quietChild demoArgs home homeFs =
     (Inr (), fst (snd (scaffold quietChild demoArgs home homeFs)),
      snd (snd (scaffold quietChild demoArgs home homeFs)))"
    by (rule run_triple) (rule demo_run_ok [OF demo_name])
  from files_after_success [OF run] run show ?thesis
    by (simp add: demo_name demo_dir)
qed

section \<open>What each part of a run spawns and writes\<close>

lemmas scaffold_run_cases =
  scaffold_cases [OF _ refl, consumes 1, case_names check children folders files finished]

lemma no_spawn:
  assumes "set (map fst ev) \<subseteq> S" and "\<forall>c \<in> S. \<forall>cmd args d. c \<noteq> Execa cmd args d"
  shows "spawned ev = []"
proof -
  have "spawnOf e = []" if "e \<in> set ev" for e
  proof -
    obtain c r where e: "e = (c, r)" by (cases e)
    with that assms have "\<forall>cmd args d. c \<noteq> Execa cmd args d" by force
    then show ?thesis unfolding e by (cases c) auto
  qed
  then show ?thesis by (simp add: spawned_def)
qed

lemma createFolders_spawned: "createFolders env d fs = (r, f, ev) \<Longrightarrow> spawned ev = []"
  by (erule no_spawn [OF createFolders_shape(1)]) auto

lemma writeFiles_spawned: "writeFiles env d fs = (r, f, ev) \<Longrightarrow> spawned ev = []"
  by (erule no_spawn [OF writeFiles_shape(1)]) auto

lemma children_events:
  assumes "bnd (createVite env pm nm cwd) (\<lambda>_. if inst then installDeps env pm d else ret ()) f0
      = (r, f1, evx)"
  shows "fsWrites evx = []" and "written evx = []" and "\<forall>e. r = Inl e \<longrightarrow> message e \<noteq> []"
proof -
  obtain gc ga where g: "generatorCommand pm nm = (gc, ga)"
    by (cases "generatorCommand pm nm") auto
  obtain x1 g1 where p1: "child env gc ga cwd f0 = (x1, g1)"
    by (cases "child env gc ga cwd f0") auto
  obtain x2 g2 where p2: "child env pm [''install''] d g1 = (x2, g2)"
    by (cases "child env pm [''install''] d g1") auto
  obtain x3 g3 where p3: "child env pm [''add'', ''-D'', ''sass''] d g2 = (x3, g3)"
    by (cases "child env pm [''add'', ''-D'', ''sass''] d g2") auto
  obtain x4 g4 where p4: "child env pm [''add'', ''@reduxjs/toolkit'', ''react-redux'', ''axios'', ''react-hot-toast''] d g3 = (x4, g4)"
    by (cases "child env pm [''add'', ''@reduxjs/toolkit'', ''react-redux'', ''axios'', ''react-hot-toast''] d g3") auto
  note ch = assms [unfolded children_chain [OF g p1 p2 p3 p4]]
  from ch show "fsWrites evx = []"
    by (auto simp: fsWrites_def split: if_splits)
  from ch show "written evx = []"
    by (auto simp: written_def split: if_splits)
  from ch show "\<forall>e. r = Inl e \<longrightarrow> message e \<noteq> []"
    by (auto split: if_splits)
qed

lemma fsWrites_folders:
  "fsWrites (map (\<lambda>rel. (Mkdirp (d @ rel), None)) rels) = map (\<lambda>rel. Mkdirp (d @ rel)) rels"
  by (induction rels) (simp_all add: fsWrites_def)

lemma fsWrites_files:
  "fsWrites (map (\<lambda>(rel, c). (WriteFile (d @ rel) c, None)) rcs)
     = map (\<lambda>(rel, c). WriteFile (d @ rel) c) rcs"
  by (induction rcs) (auto simp: fsWrites_def)

lemma successful_writes:
  assumes "scaffold env a cwd fs = (Inr (), f, ev)"
  shows "fsWrites ev =
    (if lookup fs (path_resolve cwd (appName a)) = None then [Mkdirp (path_resolve cwd (appName a))]
     else []) @ layoutCalls (path_resolve cwd (appName a))"
proof -
  let ?d = "path_resolve cwd (appName a)"
  from assms show ?thesis
  proof (cases rule: scaffold_run_cases)
    case (finished f0 ev0 f1 evx f4 ev4 ev5)
    from targetCheck_shape(3) [OF finished(1)]
    have w0: "fsWrites ev0 = (if lookup fs ?d = None then [Mkdirp ?d] else [])" by simp
    from children_events(1) [OF finished(2)] have wx: "fsWrites evx = []" .
    from createFolders_shape(2) [OF finished(3)]
    have w4: "fsWrites ev4 = map (\<lambda>rel. Mkdirp (?d @ rel)) fixedDirs"
      by (simp add: fsWrites_folders)
    from writeFiles_shape(2) [OF finished(4)]
    have w5: "fsWrites ev5 = map (\<lambda>(rel, c). WriteFile (?d @ rel) c) fixedFiles"
      by (simp add: fsWrites_files)
    have "fsWrites [(ConsoleLog finalTip, None)] = []"
      by (simp add: fsWrites_def)
    with finished(6) w0 wx w4 w5 show ?thesis
      by (simp add: fsWrites_append layoutCalls_def)
  qed simp_all
qed

lemma spawned_of_run:
  assumes run: "scaffold env a cwd fs = (r, f, ev)"
    and tc: "targetCheck env (appName a) (path_resolve cwd (appName a)) fs = (Inr (), f0, ev0)"
    and ch: "bnd (createVite env (packageManagerOf a) (appName a) cwd)
             (\<lambda>_. if installOf a
                  then installDeps env (packageManagerOf a) (path_resolve cwd (appName a))
                  else ret ()) f0
           = (rx, fx, evx)"
  shows "spawned ev = spawned evx"
    and "\<forall>e. rx = Inl e \<longrightarrow> r = Inl e \<and> f = fx \<and> ev = ev0 @ evx"
    and "r = Inr () \<longrightarrow> rx = Inr ()"
    and "\<exists>rest. ev = ev0 @ evx @ rest"
proof -
  let ?d = "path_resolve cwd (appName a)"
  note s0 = targetCheck_shape(1) [OF tc]
  from run have "spawned ev = spawned evx
      \<and> (\<forall>e. rx = Inl e \<longrightarrow> r = Inl e \<and> f = fx \<and> ev = ev0 @ evx)
      \<and> (r = Inr () \<longrightarrow> rx = Inr ())
      \<and> (\<exists>rest. ev = ev0 @ evx @ rest)"
  proof (cases rule: scaffold_run_cases)
    case (check e)
    with tc show ?thesis by simp
  next
    case (children g0 e0 e ex)
    with tc ch s0 show ?thesis by (auto simp: spawned_append)
  next
    case (folders g0 e0 g1 ex e e4)
    with tc ch s0 createFolders_spawned [OF folders(3)] show ?thesis
      by (auto simp: spawned_append)
  next
    case (files g0 e0 g1 ex g4 e4 e e5)
    with tc ch s0 createFolders_spawned [OF files(3)] writeFiles_spawned [OF files(4)]
    show ?thesis by (auto simp: spawned_append)
  next
    case (finished g0 e0 g1 ex g4 e4 e5)
    have "spawned [(ConsoleLog finalTip, None)] = []"
      by (simp add: spawned_def)
    with finished tc ch s0 createFolders_spawned [OF finished(3)] writeFiles_spawned [OF finished(4)]
    show ?thesis by (auto simp: spawned_append)
  qed
  then show "spawned ev = spawned evx"
    and "\<forall>e. rx = Inl e \<longrightarrow> r = Inl e \<and> f = fx \<and> ev = ev0 @ evx"
    and "r = Inr () \<longrightarrow> rx = Inr ()"
    and "\<exists>rest. ev = ev0 @ evx @ rest"
    by blast+
qed

section \<open>Dependency installation\<close>

lemma spawn_sequence:
  assumes inst: "installOf a"
    and pm: "pm = packageManagerOf a"
    and d: "d = path_resolve cwd (appName a)"
    and tc: "targetCheck env (appName a) d fs = (Inr (), f0, ev0)"
    and g: "generatorCommand pm (appName a) = (gc, ga)"
    and p1: "child env gc ga cwd f0 = (x1, f1)"
    and ok1: "\<not> failed x1"
    and p2: "child env pm [''install''] d f1 = (x2, f2)"
    and p3: "child env pm [''add'', ''-D'', ''sass''] d f2 = (x3, f3)"
    and p4: "child env pm [''add'', ''@reduxjs/toolkit'', ''react-redux'', ''axios'', ''react-hot-toast''] d f3 = (x4, f4)"
    and run: "scaffold env a cwd fs = (r, f, ev)"
  shows "spawned ev =
      (gc, ga, cwd) #
      (if failed x2 then [(pm, [''install''], d)]
       else if failed x3 then [(pm, [''install''], d), (pm, [''add'', ''-D'', ''sass''], d)]
       else [(pm, [''install''], d), (pm, [''add'', ''-D'', ''sass''], d),
             (pm, [''add'', ''@reduxjs/toolkit'', ''react-redux'', ''axios'', ''react-hot-toast''], d)])"
    and "failed x2 \<longrightarrow> r = Inl (ExecaError pm [''install''] x2) \<and> f = f2"
    and "\<not> failed x2 \<and> failed x3 \<longrightarrow>
           r = Inl (ExecaError pm [''add'', ''-D'', ''sass''] x3) \<and> f = f3"
    and "\<not> failed x2 \<and> \<not> failed x3 \<and> failed x4 \<longrightarrow>
           r = Inl (ExecaError pm [''add'', ''@reduxjs/toolkit'', ''react-redux'', ''axios'', ''react-hot-toast''] x4)
           \<and> f = f4"
proof -
  obtain rx fx evx where ch: "bnd (createVite env pm (appName a) cwd)
             (\<lambda>_. if installOf a then installDeps env pm d else ret ()) f0 = (rx, fx, evx)"
    by (cases "bnd (createVite env pm (appName a) cwd)
             (\<lambda>_. if installOf a then installDeps env pm d else ret ()) f0") auto
  note facts = spawned_of_run [OF run tc [unfolded d] ch [unfolded pm d]]
  note shape = ch [unfolded children_chain [OF g p1 p2 p3 p4]]
  from shape inst ok1 facts(1)
  show "spawned ev =
      (gc, ga, cwd) #
      (if failed x2 then [(pm, [''install''], d)]
       else if failed x3 then [(pm, [''install''], d), (pm, [''add'', ''-D'', ''sass''], d)]
       else [(pm, [''install''], d), (pm, [''add'', ''-D'', ''sass''], d),
             (pm, [''add'', ''@reduxjs/toolkit'', ''react-redux'', ''axios'', ''react-hot-toast''], d)])"
    by (auto simp: spawned_def split: if_splits)
  from shape inst ok1 facts(2)
  show "failed x2 \<longrightarrow> r = Inl (ExecaError pm [''install''] x2) \<and> f = f2"
    by (auto split: if_splits)
  from shape inst ok1 facts(2)
  show "\<not> failed x2 \<and> failed x3 \<longrightarrow>
           r = Inl (ExecaError pm [''add'', ''-D'', ''sass''] x3) \<and> f = f3"
    by (auto split: if_splits)
  from shape inst ok1 facts(2)
  show "\<not> failed x2 \<and> \<not> failed x3 \<and> failed x4 \<longrightarrow>
           r = Inl (ExecaError pm [''add'', ''@reduxjs/toolkit'', ''react-redux'', ''axios'', ''react-hot-toast''] x4)
           \<and> f = f4"
    by (auto split: if_splits)
qed


lemma demo_generator:
  "generatorCommand ''npm'' ''demo'' =
     (''npm'', [''create'', ''vite@latest'', ''demo'', ''--'', ''--template'', ''react''])"
  by (simp add: generatorCommand_def viteArgsByPM_def)

lemma demo_settings:
  "installOf demoArgs" "packageManagerOf demoArgs = ''npm''"
  by (simp_all add: demoArgs_def installOf_def packageManagerOf_def)


text \<open>
  C9. Let the caller have given a package manager \<open>pm\<close> that is none of npm, pnpm, yarn
  and bun, with installation not switched off. Only the generator falls back to npm: once
  the generator has exited with status 0, the next child process is \<open>install\<close> with \<open>pm\<close>
  itself as the program, in the target directory, and the two \<open>add\<close> commands that may
  follow use the same program; a run that succeeds has spawned all three of them.
\<close>

theorem fallback_stops_at_generator:
  assumes "packageManager a = Some pm"
    and "pm \<notin> {''npm'', ''pnpm'', ''yarn'', ''bun''}"
    and "install a \<noteq> Some False"
    and "d = path_resolve cwd (appName a)"
    and "targetCheck env (appName a) d fs = (Inr (), f0, ev0)"
    and "child env ''npm'' [''create'', ''vite@latest'', appName a, ''--'', ''--template'', ''react''] cwd f0
           = (x1, f1)"
    and "\<not> failed x1"
    and "scaffold env a cwd fs = (r, f, ev)"
  shows "\<exists>rest. spawned ev =
           (''npm'', [''create'', ''vite@latest'', appName a, ''--'', ''--template'', ''react''], cwd)
           # (pm, [''install''], d) # rest
      \<and> prefix rest
           [(pm, [''add'', ''-D'', ''sass''], d),
            (pm, [''add'', ''@reduxjs/toolkit'', ''react-redux'', ''axios'', ''react-hot-toast''], d)]
      \<and> (r = Inr () \<longrightarrow> rest =
           [(pm, [''add'', ''-D'', ''sass''], d),
            (pm, [''add'', ''@reduxjs/toolkit'', ''react-redux'', ''axios'', ''react-hot-toast''], d)])"
proof -
  from assms(1) have pm: "pm = packageManagerOf a"
    by (simp add: packageManagerOf_def)
  from assms(3) have inst: "installOf a"
    by (cases "install a") (auto simp: installOf_def)
  from assms(2) have g: "generatorCommand pm (appName a) =
      (''npm'', [''create'', ''vite@latest'', appName a, ''--'', ''--template'', ''react''])"
    by (simp add: generatorCommand_def viteArgsByPM_def)
  obtain x2 f2 where p2: "child env pm [''install''] d f1 = (x2, f2)"
    by (cases "child env pm [''install''] d f1") auto
  obtain x3 f3 where p3: "child env pm [''add'', ''-D'', ''sass''] d f2 = (x3, f3)"
    by (cases "child env pm [''add'', ''-D'', ''sass''] d f2") auto
  obtain x4 f4 where p4: "child env pm [''add'', ''@reduxjs/toolkit'', ''react-redux'', ''axios'', ''react-hot-toast''] d f3 = (x4, f4)"
    by (cases "child env pm [''add'', ''@reduxjs/toolkit'', ''react-redux'', ''axios'', ''react-hot-toast''] d f3") auto
  note seq = spawn_sequence [OF inst pm assms(4) assms(5) g assms(6) assms(7) p2 p3 p4 assms(8)]
  show ?thesis
  proof (cases "failed x2")
    case True
    with seq(1,2) show ?thesis by auto
  next
    case False
    show ?thesis
    proof (cases "failed x3")
      case True
      with False seq(1,3) show ?thesis by auto
    next
      case x3: False
      with False seq(1) show ?thesis by auto
    qed
  qed
qed

lemma deno_settings:
  "appName denoArgs = ''demo''" "install denoArgs \<noteq> Some False" "packageManager denoArgs = Some ''deno''"
  by (simp_all add: denoArgs_def)

theorem fallback_stops_at_generator_witness:
  "packageManager denoArgs = Some ''deno''
   \<and> ''deno'' \<notin> {''npm'', ''pnpm'', ''yarn'', ''bun''}
   \<and> install denoArgs = None
   \<and> fst (scaffold quietChild denoArgs home homeFs) = Inr ()
   \<and> spawned (snd (snd (scaffold quietChild denoArgs home homeFs))) =
       [(''npm'', [''create'', ''vite@latest'', ''demo'', ''--'', ''--template'', ''react''], [''home'', ''dev'']),
        (''deno'', [''install''], [''home'', ''dev'', ''demo'']),
        (''deno'', [''add'', ''-D'', ''sass''], [''home'', ''dev'', ''demo'']),
        (''deno'', [''add'', ''@reduxjs/toolkit'', ''react-redux'', ''axios'', ''react-hot-toast''],
         [''home'', ''dev'', ''demo''])]"
proof -
  let ?d = "[''home'', ''dev'', ''demo'']"
  have h2: "''deno'' \<notin> {''npm'', ''pnpm'', ''yarn'', ''bun''}"
    by simp
  have h3: "install denoArgs = None"
    by (simp add: denoArgs_def)
  have d: "?d = path_resolve home (appName denoArgs)"
    by (simp add: deno_settings demo_dir)
  have tc: "targetCheck quietChild (appName denoArgs) ?d homeFs =
       (Inr (), emptyDemoFs, [(PathExists ?d, None), (Mkdirp ?d, None)])"
    by (rule quiet_targetCheck)
  have p1: "child quietChild ''npm'' [''create'', ''vite@latest'', appName denoArgs, ''--'', ''--template'', ''react'']
      home emptyDemoFs = (Exited 0, emptyDemoFs)"
    by (simp add: quietChild_def)
  have ok: "fst (scaffold quietChild denoArgs home homeFs) = Inr ()"
    by (rule demo_run_ok) (rule deno_settings(1))
  have run: "scaffold quietChild denoArgs home homeFs =
      (fst (scaffold quietChild denoArgs home homeFs),
       fst (snd (scaffold quietChild denoArgs home homeFs)),
       snd (snd (scaffold quietChild denoArgs home homeFs)))"
    by simp
  have x1: "\<not> failed (Exited 0)"
    by simp
  from fallback_stops_at_generator [OF deno_settings(3) h2 deno_settings(2) d tc p1 x1 run]
  obtain rest where "spawned (snd (snd (scaffold quietChild denoArgs home homeFs))) =
           (''npm'', [''create'', ''vite@latest'', appName denoArgs, ''--'', ''--template'', ''react''], home)
           # (''deno'', [''install''], ?d) # rest"
    and "fst (scaffold quietChild denoArgs home homeFs) = Inr () \<longrightarrow> rest =
           [(''deno'', [''add'', ''-D'', ''sass''], ?d),
            (''deno'', [''add'', ''@reduxjs/toolkit'', ''react-redux'', ''axios'', ''react-hot-toast''], ?d)]"
    by auto
  with ok have good: "spawned (snd (snd (scaffold quietChild denoArgs home homeFs))) =
       [(''npm'', [''create'', ''vite@latest'', ''demo'', ''--'', ''--template'', ''react''], [''home'', ''dev'']),
        (''deno'', [''install''], ?d),
        (''deno'', [''add'', ''-D'', ''sass''], ?d),
        (''deno'', [''add'', ''@reduxjs/toolkit'', ''react-redux'', ''axios'', ''react-hot-toast''], ?d)]"
    by (simp add: deno_settings(1) home_def)
  from good ok h2 h3 deno_settings(3) show ?thesis
    by (intro conjI)
qed

lemma spawned_without_install:
  assumes "\<not> installOf a"
    and g: "generatorCommand (packageManagerOf a) (appName a) = (gc, ga)"
    and run: "scaffold env a cwd fs = (r, f, ev)"
  shows "prefix (spawned ev) [(gc, ga, cwd)]" and "r = Inr () \<longrightarrow> spawned ev = [(gc, ga, cwd)]"
proof -
  let ?d = "path_resolve cwd (appName a)"
  have "prefix (spawned ev) [(gc, ga, cwd)] \<and> (r = Inr () \<longrightarrow> spawned ev = [(gc, ga, cwd)])"
  proof (cases "targetCheck env (appName a) ?d fs")
    case (fields r0 f0 ev0)
    show ?thesis
    proof (cases r0)
      case (Inl e)
      with fields have tc: "targetCheck env (appName a) ?d fs = (Inl e, f0, ev0)" by simp
      then have "scaffold env a cwd fs = (Inl e, f0, ev0)"
        by (simp add: scaffold_def Let_def bnd_def)
      with run targetCheck_shape(1) [OF tc] show ?thesis by auto
    next
      case (Inr u)
      with fields have tc: "targetCheck env (appName a) ?d fs = (Inr (), f0, ev0)" by simp
      obtain x1 f1 where p1: "child env gc ga cwd f0 = (x1, f1)"
        by (cases "child env gc ga cwd f0") auto
      obtain rx fx evx where ch: "bnd (createVite env (packageManagerOf a) (appName a) cwd)
             (\<lambda>_. if installOf a then installDeps env (packageManagerOf a) ?d else ret ()) f0
           = (rx, fx, evx)"
        by (cases "bnd (createVite env (packageManagerOf a) (appName a) cwd)
             (\<lambda>_. if installOf a then installDeps env (packageManagerOf a) ?d else ret ()) f0") auto
      from ch assms(1) g p1 have "spawned evx = [(gc, ga, cwd)]"
        by (auto simp: bnd_def createVite_def run_def ret_def spawned_def split: if_splits)
      with spawned_of_run(1) [OF run tc ch] show ?thesis by simp
    qed
  qed
  then show "prefix (spawned ev) [(gc, ga, cwd)]" and "r = Inr () \<longrightarrow> spawned ev = [(gc, ga, cwd)]"
    by blast+
qed

lemma generator_args:
  "generatorCommand pm nm = (gc, ga) \<Longrightarrow> ga \<noteq> [] \<and> hd ga \<noteq> ''install'' \<and> hd ga \<noteq> ''add''"
  by (auto simp: generatorCommand_def viteArgsByPM_def split: if_splits)

lemma mkdirp_keeps_dir:
  assumes "mkdirp env p fs = (r, f, ev)" and "lookup fs q = Some Dir"
  shows "lookup f q = Some Dir"
  using assms(1) by (cases rule: mkdirp_cases) (simp_all add: lookup_foldl_mkdir assms(2))

lemma mkdirp_makes_dir:
  assumes "mkdirp env p fs = (Inr (), f, ev)"
  shows "lookup f p = Some Dir"
proof (cases "p = []")
  case True
  then show ?thesis by (simp add: lookup_root)
next
  case False
  then have mem: "p \<in> set (ancestors p)"
    by (simp add: set_ancestors)
  from assms show ?thesis
  proof (cases rule: mkdirp_cases)
    case created
    from created(4) mem have "\<not> is_file (lookup fs p)"
      by (auto simp: list_ex_iff)
    then have "lookup fs p = None \<or> lookup fs p = Some Dir"
      by (auto simp: is_file_def split: option.splits node.splits)
    with created(2) mem show ?thesis
      by (auto simp: lookup_foldl_mkdir)
  next
    case (refused code k)
    then show ?thesis by simp
  qed
qed

lemma promiseAll_keeps_dir:
  "promiseAll (map (\<lambda>rel. mkdirp env (d @ rel)) rels) fs = (r, f, ev) \<Longrightarrow> lookup fs q = Some Dir \<Longrightarrow>
     lookup f q = Some Dir"
proof (induction rels arbitrary: fs r f ev)
  case Nil
  then show ?case by simp
next
  case (Cons rel rels)
  obtain r1 f1 ev1 where m: "mkdirp env (d @ rel) fs = (r1, f1, ev1)"
    by (cases "mkdirp env (d @ rel) fs") auto
  obtain r2 f2 ev2 where rest: "promiseAll (map (\<lambda>rel. mkdirp env (d @ rel)) rels) f1 = (r2, f2, ev2)"
    by (cases "promiseAll (map (\<lambda>rel. mkdirp env (d @ rel)) rels) f1") auto
  from Cons.prems(1) m rest have f: "f = f2" by auto
  from mkdirp_keeps_dir [OF m Cons.prems(2)] have "lookup f1 q = Some Dir" .
  from Cons.IH [OF rest this] f show ?case by simp
qed

lemma promiseAll_makes_dirs:
  "promiseAll (map (\<lambda>rel. mkdirp env (d @ rel)) rels) fs = (Inr (), f, ev) \<Longrightarrow> rel \<in> set rels \<Longrightarrow>
     lookup f (d @ rel) = Some Dir"
proof (induction rels arbitrary: fs f ev)
  case Nil
  then show ?case by simp
next
  case (Cons rel0 rels)
  obtain r1 f1 ev1 where m: "mkdirp env (d @ rel0) fs = (r1, f1, ev1)"
    by (cases "mkdirp env (d @ rel0) fs") auto
  obtain r2 f2 ev2 where rest: "promiseAll (map (\<lambda>rel. mkdirp env (d @ rel)) rels) f1 = (r2, f2, ev2)"
    by (cases "promiseAll (map (\<lambda>rel. mkdirp env (d @ rel)) rels) f1") auto
  from Cons.prems(1) m rest have f: "f = f2" and r1: "r1 = Inr ()" and r2: "r2 = Inr ()"
    by (auto split: sum.splits)
  show ?case
  proof (cases "rel = rel0")
    case True
    from mkdirp_makes_dir [OF m [unfolded r1]] have "lookup f1 (d @ rel0) = Some Dir" .
    from promiseAll_keeps_dir [OF rest this] f True show ?thesis by simp
  next
    case False
    with Cons.prems(2) have "rel \<in> set rels" by simp
    from Cons.IH [OF rest [unfolded r2] this] f show ?thesis by simp
  qed
qed

lemma createFolders_dirs:
  assumes "createFolders env d fs = (Inr (), f, ev)" and "rel \<in> set fixedDirs"
  shows "lookup f (d @ rel) = Some Dir"
proof -
  from assms(1) have "bnd (promiseAll (map (\<lambda>rel. mkdirp env (d @ rel)) (butlast fixedDirs)))
       (\<lambda>_. mkdirp env (d @ last fixedDirs)) fs = (Inr (), f, ev)"
    by (simp add: createFolders_eq)
  then show ?thesis
  proof (cases rule: bnd_cases)
    case (rejected e)
    then show ?thesis by simp
  next
    case (fulfilled x f1 e1 e2)
    have "fixedDirs \<noteq> []" by (simp add: fixedDirs_def)
    then have "butlast fixedDirs @ [last fixedDirs] = fixedDirs" by simp
    with assms(2) have "rel \<in> set (butlast fixedDirs) \<or> rel = last fixedDirs"
      by (metis Un_iff empty_iff insert_iff list.set(1) list.set(2) set_append)
    then show ?thesis
    proof
      assume "rel \<in> set (butlast fixedDirs)"
      with fulfilled(1) have "lookup f1 (d @ rel) = Some Dir"
        by (cases x) (simp add: promiseAll_makes_dirs)
      from mkdirp_keeps_dir [OF fulfilled(2) this] show ?thesis .
    next
      assume "rel = last fixedDirs"
      with mkdirp_makes_dir [OF fulfilled(2)] show ?thesis by simp
    qed
  qed
qed

lemma fixedDirs_not_files: "rel \<in> set fixedDirs \<Longrightarrow> rel \<notin> fst ` set fixedFiles"
  by (auto simp: fixedDirs_def fixedFiles_def)

lemma writeFiles_keeps_dirs:
  assumes "writeFiles env d fs = (r, f, ev)" and "rel \<in> set fixedDirs"
  shows "lookup f (d @ rel) = lookup fs (d @ rel)"
proof -
  let ?pcs = "map (\<lambda>(rel, c). (d @ rel, c)) fixedFiles"
  from assms(1) have run: "seq (map (\<lambda>(p, c). writeFile env p c) ?pcs) fs = (r, f, ev)"
    by (simp add: writeFiles_eq comp_def case_prod_unfold)
  from fixedDirs_not_files [OF assms(2)] have "d @ rel \<notin> fst ` set ?pcs"
    by force
  from seq_writeFile_keeps [OF run this] show ?thesis .
qed

lemma layout_present:
  assumes "scaffold env a cwd fs = (Inr (), f, ev)" and "d = path_resolve cwd (appName a)"
  shows "\<forall>rel \<in> set fixedDirs. lookup f (d @ rel) = Some Dir"
    and "\<forall>(rel, c) \<in> set fixedFiles. lookup f (d @ rel) = Some (File c)"
proof -
  from assms(1) obtain f1 f4 ev4 ev5 where cf: "createFolders env d f1 = (Inr (), f4, ev4)"
    and wf: "writeFiles env d f4 = (Inr (), f, ev5)"
    by (cases rule: scaffold_cases [OF _ assms(2)]) auto
  show "\<forall>rel \<in> set fixedDirs. lookup f (d @ rel) = Some Dir"
    using createFolders_dirs [OF cf] writeFiles_keeps_dirs [OF wf] by simp
  show "\<forall>(rel, c) \<in> set fixedFiles. lookup f (d @ rel) = Some (File c)"
    using writeFiles_stored [OF wf] by auto
qed

text \<open>
  C4. With \<open>install = false\<close> a run spawns at most one child process, in the working
  directory of the caller, and it is neither an \<open>install\<close> nor an \<open>add\<close> command. A run
  that succeeds has spawned that one child, has made every directory and written every
  file of the layout in the order of the source, and leaves a file system in which the
  ten directories are directories and the seventeen files are regular files with the
  content of the source. A successful run with installation enabled, started on the same
  file system, makes exactly the same directory creations and file writes and leaves the
  same directories and files.
\<close>

theorem no_install_keeps_layout:
  assumes "install a = Some False"
    and "d = path_resolve cwd (appName a)"
    and "scaffold env a cwd fs = (r, f, ev)"
  shows "length (spawned ev) \<le> 1
    \<and> (\<forall>(c, as, wd) \<in> set (spawned ev).
          wd = cwd \<and> as \<noteq> [] \<and> hd as \<noteq> ''install'' \<and> hd as \<noteq> ''add'')
    \<and> (r = Inr () \<longrightarrow>
          length (spawned ev) = 1
          \<and> fsWrites ev = (if lookup fs d = None then [Mkdirp d] else []) @ layoutCalls d
          \<and> (\<forall>rel \<in> set [ [''src'', ''__tests__''], [''src'', ''assets''],
                  [''src'', ''components'', ''UserControls''], [''src'', ''external''],
                  [''src'', ''helpers''], [''src'', ''hooks''], [''src'', ''redux''],
                  [''src'', ''styles'', ''abstract''], [''src'', ''styles'', ''pages''], [''public'']].
               lookup f (d @ rel) = Some Dir)
          \<and> (\<forall>(rel, c) \<in> set [([''src'', ''HomeLayout.jsx''], homeLayout),
                  ([''src'', ''helpers'', ''helperFunctions.js''], helperFunctionsJs),
                  ([''src'', ''helpers'', ''screenMappers.jsx''], screenMappersJsx),
                  ([''src'', ''hooks'', ''useGlobalHook.js''], globalHook),
                  ([''src'', ''redux'', ''initialState.js''], initialState),
                  ([''src'', ''redux'', ''globalSlice.js''], globalSlice),
                  ([''src'', ''redux'', ''store.js''], store),
                  ([''src'', ''external'', ''customAxiosInstance.js''], customAxiosInstance),
                  ([''src'', ''external'', ''api.js''], apiJs),
                  ([''src'', ''__tests__'', ''setup.js''], setupJs),
                  ([''public'', ''config.json''], configJson),
                  ([''src'', ''styles'', ''abstract'', ''_colors.scss''], colorsScss),
                  ([''src'', ''styles'', ''abstract'', ''_variables.scss''], variablesScss),
                  ([''src'', ''styles'', ''abstract'', ''_mixins.scss''], mixinsScss),
                  ([''src'', ''styles'', ''_main.scss''], mainScss),
                  ([''src'', ''App.jsx''], appJsx),
                  ([''src'', ''main.jsx''], mainJsx)].
               lookup f (d @ rel) = Some (File c)))
    \<and> (\<forall>env' f' ev'. scaffold env' (a\<lparr>install := Some True\<rparr>) cwd fs = (Inr (), f', ev') \<longrightarrow>
          fsWrites ev' = (if lookup fs d = None then [Mkdirp d] else []) @ layoutCalls d
          \<and> (\<forall>rel \<in> set [ [''src'', ''__tests__''], [''src'', ''assets''],
                  [''src'', ''components'', ''UserControls''], [''src'', ''external''],
                  [''src'', ''helpers''], [''src'', ''hooks''], [''src'', ''redux''],
                  [''src'', ''styles'', ''abstract''], [''src'', ''styles'', ''pages''], [''public'']].
               lookup f' (d @ rel) = Some Dir)
          \<and> (\<forall>(rel, c) \<in> set [([''src'', ''HomeLayout.jsx''], homeLayout),
                  ([''src'', ''helpers'', ''helperFunctions.js''], helperFunctionsJs),
                  ([''src'', ''helpers'', ''screenMappers.jsx''], screenMappersJsx),
                  ([''src'', ''hooks'', ''useGlobalHook.js''], globalHook),
                  ([''src'', ''redux'', ''initialState.js''], initialState),
                  ([''src'', ''redux'', ''globalSlice.js''], globalSlice),
                  ([''src'', ''redux'', ''store.js''], store),
                  ([''src'', ''external'', ''customAxiosInstance.js''], customAxiosInstance),
                  ([''src'', ''external'', ''api.js''], apiJs),
                  ([''src'', ''__tests__'', ''setup.js''], setupJs),
                  ([''public'', ''config.json''], configJson),
                  ([''src'', ''styles'', ''abstract'', ''_colors.scss''], colorsScss),
                  ([''src'', ''styles'', ''abstract'', ''_variables.scss''], variablesScss),
                  ([''src'', ''styles'', ''abstract'', ''_mixins.scss''], mixinsScss),
                  ([''src'', ''styles'', ''_main.scss''], mainScss),
                  ([''src'', ''App.jsx''], appJsx),
                  ([''src'', ''main.jsx''], mainJsx)].
               lookup f' (d @ rel) = Some (File c)))"
proof -
  from assms(1) have off: "\<not> installOf a"
    by (simp add: installOf_def)
  obtain gc ga where g: "generatorCommand (packageManagerOf a) (appName a) = (gc, ga)"
    by (cases "generatorCommand (packageManagerOf a) (appName a)") auto
  note sp = spawned_without_install [OF off g assms(3)]
  from sp(1) have few: "length (spawned ev) \<le> 1"
    by (auto dest: prefix_length_le)
  from set_mono_prefix [OF sp(1)] have "set (spawned ev) \<subseteq> {(gc, ga, cwd)}"
    by simp
  with generator_args [OF g]
  have only: "\<forall>(c, as, wd) \<in> set (spawned ev).
          wd = cwd \<and> as \<noteq> [] \<and> hd as \<noteq> ''install'' \<and> hd as \<noteq> ''add''"
    by auto
  have here: "r = Inr () \<longrightarrow>
          length (spawned ev) = 1
          \<and> fsWrites ev = (if lookup fs d = None then [Mkdirp d] else []) @ layoutCalls d
          \<and> (\<forall>rel \<in> set fixedDirs. lookup f (d @ rel) = Some Dir)
          \<and> (\<forall>(rel, c) \<in> set fixedFiles. lookup f (d @ rel) = Some (File c))"
  proof
    assume ok: "r = Inr ()"
    with assms(3) have run: "scaffold env a cwd fs = (Inr (), f, ev)" by simp
    from sp(2) ok have "length (spawned ev) = 1" by simp
    moreover from successful_writes [OF run]
    have "fsWrites ev = (if lookup fs d = None then [Mkdirp d] else []) @ layoutCalls d"
      by (simp add: assms(2))
    ultimately show "length (spawned ev) = 1
          \<and> fsWrites ev = (if lookup fs d = None then [Mkdirp d] else []) @ layoutCalls d
          \<and> (\<forall>rel \<in> set fixedDirs. lookup f (d @ rel) = Some Dir)
          \<and> (\<forall>(rel, c) \<in> set fixedFiles. lookup f (d @ rel) = Some (File c))"
      using layout_present [OF run assms(2)] by blast
  qed
  have there: "\<forall>env' f' ev'. scaffold env' (a\<lparr>install := Some True\<rparr>) cwd fs = (Inr (), f', ev') \<longrightarrow>
          fsWrites ev' = (if lookup fs d = None then [Mkdirp d] else []) @ layoutCalls d
          \<and> (\<forall>rel \<in> set fixedDirs. lookup f' (d @ rel) = Some Dir)
          \<and> (\<forall>(rel, c) \<in> set fixedFiles. lookup f' (d @ rel) = Some (File c))"
  proof (intro allI impI)
    fix env' f' ev'
    assume run: "scaffold env' (a\<lparr>install := Some True\<rparr>) cwd fs = (Inr (), f', ev')"
    have d': "d = path_resolve cwd (appName (a\<lparr>install := Some True\<rparr>))"
      by (simp add: assms(2))
    from successful_writes [OF run]
    have "fsWrites ev' = (if lookup fs d = None then [Mkdirp d] else []) @ layoutCalls d"
      by (simp add: assms(2))
    with layout_present [OF run d']
    show "fsWrites ev' = (if lookup fs d = None then [Mkdirp d] else []) @ layoutCalls d
          \<and> (\<forall>rel \<in> set fixedDirs. lookup f' (d @ rel) = Some Dir)
          \<and> (\<forall>(rel, c) \<in> set fixedFiles. lookup f' (d @ rel) = Some (File c))"
      by blast
  qed
  from few only here there show ?thesis
    unfolding fixedDirs_def fixedFiles_def by blast
qed

lemma noInstall_settings:
  "appName noInstallArgs = ''demo''" "install noInstallArgs = Some False"
  "noInstallArgs\<lparr>install := Some True\<rparr> = demoArgs"
  by (simp_all add: noInstallArgs_def demoArgs_def)

theorem no_install_keeps_layout_witness:
  "install noInstallArgs = Some False
   \<and> fst (scaffold quietChild noInstallArgs home homeFs) = Inr ()
   \<and> length (spawned (snd (snd (scaffold quietChild noInstallArgs home homeFs)))) = 1
   \<and> fsWrites (snd (snd (scaffold quietChild noInstallArgs home homeFs))) =
       Mkdirp [''home'', ''dev'', ''demo''] # layoutCalls [''home'', ''dev'', ''demo'']
   \<and> lookup (fst (snd (scaffold quietChild noInstallArgs home homeFs)))
       [''home'', ''dev'', ''demo'', ''src'', ''assets''] = Some Dir
   \<and> lookup (fst (snd (scaffold quietChild noInstallArgs home homeFs)))
       [''home'', ''dev'', ''demo'', ''src'', ''components'', ''UserControls''] = Some Dir
   \<and> lookup (fst (snd (scaffold quietChild noInstallArgs home homeFs)))
       [''home'', ''dev'', ''demo'', ''src'', ''styles'', ''pages''] = Some Dir
   \<and> lookup (fst (snd (scaffold quietChild noInstallArgs home homeFs)))
       [''home'', ''dev'', ''demo'', ''public''] = Some Dir
   \<and> lookup (fst (snd (scaffold quietChild noInstallArgs home homeFs)))
       [''home'', ''dev'', ''demo'', ''src'', ''App.jsx''] = Some (File appJsx)
   \<and> fst (scaffold quietChild demoArgs home homeFs) = Inr ()
   \<and> fsWrites (snd (snd (scaffold quietChild demoArgs home homeFs))) =
       Mkdirp [''home'', ''dev'', ''demo''] # layoutCalls [''home'', ''dev'', ''demo'']
   \<and> lookup (fst (snd (scaffold quietChild demoArgs home homeFs)))
       [''home'', ''dev'', ''demo'', ''src'', ''assets''] = Some Dir
   \<and> lookup (fst (snd (scaffold quietChild demoArgs home homeFs)))
       [''home'', ''dev'', ''demo'', ''src'', ''App.jsx''] = Some (File appJsx)"
proof -
  let ?d = "[''home'', ''dev'', ''demo'']"
  let ?f = "fst (snd (scaffold quietChild noInstallArgs home homeFs))"
  let ?ev = "snd (snd (scaffold quietChild noInstallArgs home homeFs))"
  let ?f' = "fst (snd (scaffold quietChild demoArgs home homeFs))"
  let ?ev' = "snd (snd (scaffold quietChild demoArgs home homeFs))"
  have ok: "fst (scaffold quietChild noInstallArgs home homeFs) = Inr ()"
    by (rule demo_run_ok) (rule noInstall_settings(1))
  have ok': "fst (scaffold quietChild demoArgs home homeFs) = Inr ()"
    by (rule demo_run_ok) (rule demo_name)
  have d: "?d = path_resolve home (appName noInstallArgs)"
    by (simp add: noInstall_settings(1) demo_dir)
  have run: "scaffold quietChild noInstallArgs home homeFs =
      (fst (scaffold quietChild noInstallArgs home homeFs), ?f, ?ev)"
    by simp
  have run': "scaffold quietChild (noInstallArgs\<lparr>install := Some True\<rparr>) home homeFs =
      (Inr (), ?f', ?ev')"
    unfolding noInstall_settings(3) by (rule run_triple) (rule ok')
  note here = no_install_keeps_layout [OF noInstall_settings(2) d run]
  from here ok have a: "length (spawned ?ev) = 1"
    and b: "fsWrites ?ev = Mkdirp ?d # layoutCalls ?d"
    by (simp_all add: homeFs_demo_missing)
  from here ok have c: "lookup ?f (?d @ [''src'', ''assets'']) = Some Dir"
    "lookup ?f (?d @ [''src'', ''components'', ''UserControls'']) = Some Dir"
    "lookup ?f (?d @ [''src'', ''styles'', ''pages'']) = Some Dir"
    "lookup ?f (?d @ [''public'']) = Some Dir"
    "lookup ?f (?d @ [''src'', ''App.jsx'']) = Some (File appJsx)"
    by simp_all
  from here [THEN conjunct2, THEN conjunct2, THEN conjunct2, THEN spec, THEN spec, THEN spec,
      THEN mp, OF run']
  have there: "fsWrites ?ev' = Mkdirp ?d # layoutCalls ?d"
    "lookup ?f' (?d @ [''src'', ''assets'']) = Some Dir"
    "lookup ?f' (?d @ [''src'', ''App.jsx'']) = Some (File appJsx)"
    by (simp_all add: homeFs_demo_missing)
  from a b c there ok ok' noInstall_settings(2) show ?thesis
    by simp
qed

section \<open>The command line\<close>

lemma scaffold_error_message:
  assumes "scaffold env a cwd fs = (Inl e, f, ev)"
  shows "message e \<noteq> []"
  using assms
proof (cases rule: scaffold_run_cases)
  case (check e')
  with targetCheck_shape(2) [OF check(1)] show ?thesis by simp
next
  case (children f0 ev0 e' evx)
  with children_events(3) [OF children(2)] show ?thesis by simp
next
  case (folders f0 ev0 f1 evx e' ev4)
  with createFolders_shape(3) [OF folders(3)] show ?thesis by simp
next
  case (files f0 ev0 f1 evx f4 ev4 e' ev5)
  with writeFiles_shape(3) [OF files(4)] show ?thesis by simp
next
  case (finished f0 ev0 f1 evx f4 ev4 ev5)
  then show ?thesis by simp
qed

text \<open>
  C6. When \<open>scaffold\<close> completes, the command prints the message that names the next
  steps (\<open>cd\<close> into the new directory, then \<open>run dev\<close> with the package manager) and
  the exit status is 0. When \<open>scaffold\<close> is rejected with an error, the command prints
  the message of that error to the error stream, after the prefix \<open>Scaffold failed:\<close>,
  and the exit status is 1. The file system is the one \<open>scaffold\<close> left.
\<close>

theorem cli_exit_status:
  "(scaffold env \<lparr> appName = nm, packageManager = Some (opt_packageManager opts),
                  install = Some (opt_install opts) \<rparr> cwd fs = (Inr (), f, ev) \<longrightarrow>
      cli inspect env nm opts cwd fs =
        (0, f, ev @ [(ConsoleLog (''\<newline> Done. Next:\<newline>  cd '' @ nm @ ''\<newline>  ''
                       @ opt_packageManager opts @ '' run dev\<newline>''), None)]))
   \<and> (scaffold env \<lparr> appName = nm, packageManager = Some (opt_packageManager opts),
                  install = Some (opt_install opts) \<rparr> cwd fs = (Inl e, f, ev) \<longrightarrow>
      cli inspect env nm opts cwd fs =
        (1, f, ev @ [(ConsoleError (''\<newline> Scaffold failed: '' @ message e), None)]))"
proof (intro conjI impI)
  assume "scaffold env \<lparr> appName = nm, packageManager = Some (opt_packageManager opts),
                  install = Some (opt_install opts) \<rparr> cwd fs = (Inr (), f, ev)"
  then show "cli inspect env nm opts cwd fs =
        (0, f, ev @ [(ConsoleLog (''\<newline> Done. Next:\<newline>  cd '' @ nm @ ''\<newline>  ''
                       @ opt_packageManager opts @ '' run dev\<newline>''), None)])"
    by (simp add: cli_def doneMessage_def)
next
  assume run: "scaffold env \<lparr> appName = nm, packageManager = Some (opt_packageManager opts),
                  install = Some (opt_install opts) \<rparr> cwd fs = (Inl e, f, ev)"
  from scaffold_error_message [OF run] have "message e \<noteq> []" .
  with run show "cli inspect env nm opts cwd fs =
        (1, f, ev @ [(ConsoleError (''\<newline> Scaffold failed: '' @ message e), None)])"
    by (simp add: cli_def)
qed

lemma demoArgs_record:
  "\<lparr> appName = ''demo'', packageManager = Some (opt_packageManager \<lparr>opt_packageManager = ''npm'', opt_install = True\<rparr>),
     install = Some (opt_install \<lparr>opt_packageManager = ''npm'', opt_install = True\<rparr>) \<rparr> = demoArgs"
  by (simp add: demoArgs_def)

theorem cli_exit_status_witness:
  "fst (scaffold quietChild demoArgs home homeFs) = Inr ()
   \<and> cli (\<lambda>e. []) quietChild ''demo'' \<lparr>opt_packageManager = ''npm'', opt_install = True\<rparr> home homeFs =
       (0, fst (snd (scaffold quietChild demoArgs home homeFs)),
        snd (snd (scaffold quietChild demoArgs home homeFs))
        @ [(ConsoleLog ''\<newline> Done. Next:\<newline>  cd demo\<newline>  npm run dev\<newline>'', None)])
   \<and> (\<exists>msg. scaffold quietChild demoArgs home usedDemoFs =
         (Inl (Error msg), usedDemoFs,
          [(PathExists [''home'', ''dev'', ''demo''], None), (Readdir [''home'', ''dev'', ''demo''], None)])
       \<and> cli (\<lambda>e. []) quietChild ''demo'' \<lparr>opt_packageManager = ''npm'', opt_install = True\<rparr> home usedDemoFs =
         (1, usedDemoFs,
          [(PathExists [''home'', ''dev'', ''demo''], None), (Readdir [''home'', ''dev'', ''demo''], None),
           (ConsoleError (''\<newline> Scaffold failed: '' @ msg), None)]))"
proof -
  let ?opts = "\<lparr>opt_packageManager = ''npm'', opt_install = True\<rparr>"
  let ?d = "[''home'', ''dev'', ''demo'']"
  have ok: "fst (scaffold quietChild demoArgs home homeFs) = Inr ()"
    by (rule demo_run_ok) (rule demo_name)
  then have run: "scaffold quietChild
      \<lparr> appName = ''demo'', packageManager = Some (opt_packageManager ?opts),
        install = Some (opt_install ?opts) \<rparr> home homeFs =
      (Inr (), fst (snd (scaffold quietChild demoArgs home homeFs)),
       snd (snd (scaffold quietChild demoArgs home homeFs)))"
    unfolding demoArgs_record by (rule run_triple)
  have good: "cli (\<lambda>e. []) quietChild ''demo'' ?opts home homeFs =
       (0, fst (snd (scaffold quietChild demoArgs home homeFs)),
        snd (snd (scaffold quietChild demoArgs home homeFs))
        @ [(ConsoleLog ''\<newline> Done. Next:\<newline>  cd demo\<newline>  npm run dev\<newline>'', None)])"
    using cli_exit_status [where env = quietChild and nm = "''demo''" and opts = ?opts and cwd = home
        and fs = homeFs and inspect = "\<lambda>e. []"
        and f = "fst (snd (scaffold quietChild demoArgs home homeFs))"
        and ev = "snd (snd (scaffold quietChild demoArgs home homeFs))"] run
    by simp
  have "lookup usedDemoFs ?d = Some Dir" and "entries usedDemoFs ?d \<noteq> []"
    by (simp_all add: lookup_def entries_def usedDemoFs_def)
  then have "targetCheck quietChild ''demo'' ?d usedDemoFs =
      (Inl (Error (notEmptyMessage ''demo'')), usedDemoFs, [(PathExists ?d, None), (Readdir ?d, None)])"
    by (rule targetCheck_nonempty)
  then have bad_run: "scaffold quietChild
      \<lparr> appName = ''demo'', packageManager = Some (opt_packageManager ?opts),
        install = Some (opt_install ?opts) \<rparr> home usedDemoFs =
      (Inl (Error (notEmptyMessage ''demo'')), usedDemoFs, [(PathExists ?d, None), (Readdir ?d, None)])"
    unfolding demoArgs_record by (simp add: scaffold_def Let_def bnd_def demo_name demo_dir)
  have bad: "cli (\<lambda>e. []) quietChild ''demo'' ?opts home usedDemoFs =
         (1, usedDemoFs,
          [(PathExists ?d, None), (Readdir ?d, None),
           (ConsoleError (''\<newline> Scaffold failed: '' @ notEmptyMessage ''demo''), None)])"
    using cli_exit_status [where env = quietChild and nm = "''demo''" and opts = ?opts and cwd = home
        and fs = usedDemoFs and inspect = "\<lambda>e. []" and e = "Error (notEmptyMessage ''demo'')"
        and f = usedDemoFs and ev = "[(PathExists ?d, None), (Readdir ?d, None)]"] bad_run
    by simp
  from bad_run have "scaffold quietChild demoArgs home usedDemoFs =
      (Inl (Error (notEmptyMessage ''demo'')), usedDemoFs, [(PathExists ?d, None), (Readdir ?d, None)])"
    unfolding demoArgs_record .
  with ok good bad show ?thesis by blast
qed

section \<open>A missing or empty target\<close>






section \<open>One thing after the other\<close>

lemma run_result:
  assumes "\<And>r f ev. scaffold env a cwd fs = (r, f, ev) \<Longrightarrow> (r, f, ev) = x"
  shows "scaffold env a cwd fs = x"
proof -
  obtain r f ev where run: "scaffold env a cwd fs = (r, f, ev)"
    by (cases "scaffold env a cwd fs") auto
  with assms [OF run] show ?thesis by simp
qed

text \<open>
  C8. The operations of a run happen one after the other. Each child process runs on
  the file system left by the operation before it, and nothing follows it unless it has
  exited with status 0. The first error of any step is the result of the run, as it
  is; the trace ends with the step that raised it, so no later step has run and nothing
  was tried again; and the file system is the one that step left, so nothing was undone.
\<close>

theorem strictly_sequential:
  assumes "pm = packageManagerOf a"
    and "d = path_resolve cwd (appName a)"
    and "targetCheck env (appName a) d fs = (r0, f0, ev0)"
    and "generatorCommand pm (appName a) = (gc, ga)"
    and "child env gc ga cwd f0 = (x1, f1)"
    and "child env pm [''install''] d f1 = (x2, f2)"
    and "child env pm [''add'', ''-D'', ''sass''] d f2 = (x3, f3)"
    and "child env pm [''add'', ''@reduxjs/toolkit'', ''react-redux'', ''axios'', ''react-hot-toast''] d f3 = (x4, f4)"
    and "fC = (if installOf a then f4 else f1)"
    and "evC = (Execa gc ga cwd, None) #
           (if installOf a
            then [(Execa pm [''install''] d, None),
                  (Execa pm [''add'', ''-D'', ''sass''] d, None),
                  (Execa pm [''add'', ''@reduxjs/toolkit'', ''react-redux'', ''axios'', ''react-hot-toast''] d, None)]
            else [])"
    and "createFolders env d fC = (r4, f5, ev4)"
    and "writeFiles env d f5 = (r5, f6, ev5)"
  shows "(\<forall>e. r0 = Inl e \<longrightarrow> scaffold env a cwd fs = (Inl e, f0, ev0))
    \<and> (r0 = Inr () \<and> failed x1 \<longrightarrow>
          scaffold env a cwd fs =
            (Inl (ExecaError gc ga x1), f1, ev0 @ [(Execa gc ga cwd, Some (ExecaError gc ga x1))]))
    \<and> (r0 = Inr () \<and> \<not> failed x1 \<and> installOf a \<and> failed x2 \<longrightarrow>
          scaffold env a cwd fs =
            (Inl (ExecaError pm [''install''] x2), f2,
             ev0 @ [(Execa gc ga cwd, None),
                    (Execa pm [''install''] d, Some (ExecaError pm [''install''] x2))]))
    \<and> (r0 = Inr () \<and> \<not> failed x1 \<and> installOf a \<and> \<not> failed x2 \<and> failed x3 \<longrightarrow>
          scaffold env a cwd fs =
            (Inl (ExecaError pm [''add'', ''-D'', ''sass''] x3), f3,
             ev0 @ [(Execa gc ga cwd, None),
                    (Execa pm [''install''] d, None),
                    (Execa pm [''add'', ''-D'', ''sass''] d,
                     Some (ExecaError pm [''add'', ''-D'', ''sass''] x3))]))
    \<and> (r0 = Inr () \<and> \<not> failed x1 \<and> installOf a \<and> \<not> failed x2 \<and> \<not> failed x3 \<and> failed x4 \<longrightarrow>
          scaffold env a cwd fs =
            (Inl (ExecaError pm [''add'', ''@reduxjs/toolkit'', ''react-redux'', ''axios'', ''react-hot-toast''] x4), f4,
             ev0 @ [(Execa gc ga cwd, None),
                    (Execa pm [''install''] d, None),
                    (Execa pm [''add'', ''-D'', ''sass''] d, None),
                    (Execa pm [''add'', ''@reduxjs/toolkit'', ''react-redux'', ''axios'', ''react-hot-toast''] d,
                     Some (ExecaError pm [''add'', ''@reduxjs/toolkit'', ''react-redux'', ''axios'', ''react-hot-toast''] x4))]))
    \<and> (r0 = Inr () \<and> \<not> failed x1 \<and> (installOf a \<longrightarrow> \<not> failed x2 \<and> \<not> failed x3 \<and> \<not> failed x4) \<longrightarrow>
          (\<forall>e. r4 = Inl e \<longrightarrow> scaffold env a cwd fs = (Inl e, f5, ev0 @ evC @ ev4))
          \<and> (\<forall>e. r4 = Inr () \<and> r5 = Inl e \<longrightarrow>
                scaffold env a cwd fs = (Inl e, f6, ev0 @ evC @ ev4 @ ev5))
          \<and> (r4 = Inr () \<and> r5 = Inr () \<longrightarrow>
                scaffold env a cwd fs =
                  (Inr (), f6, ev0 @ evC @ ev4 @ ev5 @ [(ConsoleLog finalTip, None)])))"
proof -
  note ch = children_chain [OF assms(4) assms(5) assms(6) assms(7) assms(8), of "installOf a"]
  note tc = assms(3) [unfolded assms(2)]
  note cf = assms(11) [unfolded assms(2)]
  note wf = assms(12) [unfolded assms(2)]
  have s1: "scaffold env a cwd fs = (Inl e, f0, ev0)" if "r0 = Inl e" for e
  proof (rule run_result)
    fix r f ev assume "scaffold env a cwd fs = (r, f, ev)"
    then show "(r, f, ev) = (Inl e, f0, ev0)"
      by (cases rule: scaffold_run_cases) (use tc that in auto)
  qed
  have s2: "scaffold env a cwd fs = (Inl e, fx, ev0 @ evx)"
    if "r0 = Inr ()" and "bnd (createVite env pm (appName a) cwd)
          (\<lambda>_. if installOf a then installDeps env pm d else ret ()) f0 = (Inl e, fx, evx)"
    for e fx evx
  proof (rule run_result)
    fix r f ev assume "scaffold env a cwd fs = (r, f, ev)"
    then show "(r, f, ev) = (Inl e, fx, ev0 @ evx)"
      by (cases rule: scaffold_run_cases) (use tc that [unfolded assms(1) assms(2)] in auto)
  qed
  have s3: "scaffold env a cwd fs =
      (case r4 of Inl e \<Rightarrow> (Inl e, f5, ev0 @ evC @ ev4)
       | Inr u \<Rightarrow> (case r5 of Inl e \<Rightarrow> (Inl e, f6, ev0 @ evC @ ev4 @ ev5)
                   | Inr u \<Rightarrow> (Inr (), f6, ev0 @ evC @ ev4 @ ev5 @ [(ConsoleLog finalTip, None)])))"
    if "r0 = Inr ()" and "bnd (createVite env pm (appName a) cwd)
          (\<lambda>_. if installOf a then installDeps env pm d else ret ()) f0 = (Inr (), fC, evC)"
  proof (rule run_result)
    fix r f ev assume "scaffold env a cwd fs = (r, f, ev)"
    then show "(r, f, ev) =
      (case r4 of Inl e \<Rightarrow> (Inl e, f5, ev0 @ evC @ ev4)
       | Inr u \<Rightarrow> (case r5 of Inl e \<Rightarrow> (Inl e, f6, ev0 @ evC @ ev4 @ ev5)
                   | Inr u \<Rightarrow> (Inr (), f6, ev0 @ evC @ ev4 @ ev5 @ [(ConsoleLog finalTip, None)])))"
      by (cases rule: scaffold_run_cases) (use tc cf wf that [unfolded assms(1) assms(2)] in auto)
  qed
  have quiet: "bnd (createVite env pm (appName a) cwd)
          (\<lambda>_. if installOf a then installDeps env pm d else ret ()) f0 = (Inr (), fC, evC)"
    if "\<not> failed x1" and "installOf a \<longrightarrow> \<not> failed x2 \<and> \<not> failed x3 \<and> \<not> failed x4"
    using that by (simp add: ch assms(9) assms(10))
  show ?thesis
  proof (intro conjI allI impI)
    fix e assume "r0 = Inl e"
    then show "scaffold env a cwd fs = (Inl e, f0, ev0)" by (rule s1)
  next
    assume h: "r0 = Inr () \<and> failed x1"
    from h ch have c: "bnd (createVite env pm (appName a) cwd)
          (\<lambda>_. if installOf a then installDeps env pm d else ret ()) f0 =
        (Inl (ExecaError gc ga x1), f1,
         [(Execa gc ga cwd, Some (ExecaError gc ga x1))])"
      by simp
    from h have "r0 = Inr ()" by simp
    from s2 [OF this c] show "scaffold env a cwd fs =
            (Inl (ExecaError gc ga x1), f1, ev0 @ [(Execa gc ga cwd, Some (ExecaError gc ga x1))])"
      by simp
  next
    assume h: "r0 = Inr () \<and> \<not> failed x1 \<and> installOf a \<and> failed x2"
    from h ch have c: "bnd (createVite env pm (appName a) cwd)
          (\<lambda>_. if installOf a then installDeps env pm d else ret ()) f0 =
        (Inl (ExecaError pm [''install''] x2), f2,
         [(Execa gc ga cwd, None),
          (Execa pm [''install''] d, Some (ExecaError pm [''install''] x2))])"
      by simp
    from h have "r0 = Inr ()" by simp
    from s2 [OF this c] show "scaffold env a cwd fs =
            (Inl (ExecaError pm [''install''] x2), f2,
             ev0 @ [(Execa gc ga cwd, None),
                    (Execa pm [''install''] d, Some (ExecaError pm [''install''] x2))])"
      by simp
  next
    assume h: "r0 = Inr () \<and> \<not> failed x1 \<and> installOf a \<and> \<not> failed x2 \<and> failed x3"
    from h ch have c: "bnd (createVite env pm (appName a) cwd)
          (\<lambda>_. if installOf a then installDeps env pm d else ret ()) f0 =
        (Inl (ExecaError pm [''add'', ''-D'', ''sass''] x3), f3,
         [(Execa gc ga cwd, None),
          (Execa pm [''install''] d, None),
                    (Execa pm [''add'', ''-D'', ''sass''] d,
                     Some (ExecaError pm [''add'', ''-D'', ''sass''] x3))])"
      by simp
    from h have "r0 = Inr ()" by simp
    from s2 [OF this c] show "scaffold env a cwd fs =
            (Inl (ExecaError pm [''add'', ''-D'', ''sass''] x3), f3,
             ev0 @ [(Execa gc ga cwd, None),
          (Execa pm [''install''] d, None),
          (Execa pm [''add'', ''-D'', ''sass''] d,
           Some (ExecaError pm [''add'', ''-D'', ''sass''] x3))])"
      by simp
  next
    assume h: "r0 = Inr () \<and> \<not> failed x1 \<and> installOf a \<and> \<not> failed x2 \<and> \<not> failed x3 \<and> failed x4"
    from h ch have c: "bnd (createVite env pm (appName a) cwd)
          (\<lambda>_. if installOf a then installDeps env pm d else ret ()) f0 =
        (Inl (ExecaError pm [''add'', ''@reduxjs/toolkit'', ''react-redux'', ''axios'', ''react-hot-toast''] x4), f4,
         [(Execa gc ga cwd, None),
          (Execa pm [''install''] d, None),
                    (Execa pm [''add'', ''-D'', ''sass''] d, None),
                    (Execa pm [''add'', ''@reduxjs/toolkit'', ''react-redux'', ''axios'', ''react-hot-toast''] d,
                     Some (ExecaError pm [''add'', ''@reduxjs/toolkit'', ''react-redux'', ''axios'', ''react-hot-toast''] x4))])"
      by simp
    from h have "r0 = Inr ()" by simp
    from s2 [OF this c] show "scaffold env a cwd fs =
            (Inl (ExecaError pm [''add'', ''@reduxjs/toolkit'', ''react-redux'', ''axios'', ''react-hot-toast''] x4), f4,
             ev0 @ [(Execa gc ga cwd, None),
                    (Execa pm [''install''] d, None),
                    (Execa pm [''add'', ''-D'', ''sass''] d, None),
                    (Execa pm [''add'', ''@reduxjs/toolkit'', ''react-redux'', ''axios'', ''react-hot-toast''] d,
                     Some (ExecaError pm [''add'', ''@reduxjs/toolkit'', ''react-redux'', ''axios'', ''react-hot-toast''] x4))])"
      by simp
  next
    fix e
    assume h: "r0 = Inr () \<and> \<not> failed x1 \<and> (installOf a \<longrightarrow> \<not> failed x2 \<and> \<not> failed x3 \<and> \<not> failed x4)"
      and "r4 = Inl e"
    with s3 [OF _ quiet] show "scaffold env a cwd fs = (Inl e, f5, ev0 @ evC @ ev4)"
      by simp
  next
    fix e
    assume h: "r0 = Inr () \<and> \<not> failed x1 \<and> (installOf a \<longrightarrow> \<not> failed x2 \<and> \<not> failed x3 \<and> \<not> failed x4)"
      and "r4 = Inr () \<and> r5 = Inl e"
    with s3 [OF _ quiet] show "scaffold env a cwd fs = (Inl e, f6, ev0 @ evC @ ev4 @ ev5)"
      by simp
  next
    assume h: "r0 = Inr () \<and> \<not> failed x1 \<and> (installOf a \<longrightarrow> \<not> failed x2 \<and> \<not> failed x3 \<and> \<not> failed x4)"
      and "r4 = Inr () \<and> r5 = Inr ()"
    with s3 [OF _ quiet] show "scaffold env a cwd fs =
                  (Inr (), f6, ev0 @ evC @ ev4 @ ev5 @ [(ConsoleLog finalTip, None)])"
      by simp
  qed
qed

lemma emptyDemoFs_no_file: "\<not> is_file (lookup emptyDemoFs q)"
  by (simp add: lookup_def emptyDemoFs_def is_file_def)

lemma emptyDemoFs_nothing_under:
  "strict_prefix [''home'', ''dev'', ''demo''] q \<Longrightarrow> lookup emptyDemoFs q = None"
  by (auto simp: lookup_def emptyDemoFs_def)

theorem strictly_sequential_witness:
  "targetCheck quietChild (appName demoArgs) [''home'', ''dev'', ''demo''] homeFs =
     (Inr (), emptyDemoFs,
      [(PathExists [''home'', ''dev'', ''demo''], None), (Mkdirp [''home'', ''dev'', ''demo''], None)])
   \<and> child (failingChild [''install'']) ''npm'' [''install''] [''home'', ''dev'', ''demo''] emptyDemoFs
       = (Exited 1, emptyDemoFs)
   \<and> failed (Exited 1)
   \<and> scaffold (failingChild [''install'']) demoArgs home homeFs =
       (Inl (ExecaError ''npm'' [''install''] (Exited 1)), emptyDemoFs,
        [(PathExists [''home'', ''dev'', ''demo''], None), (Mkdirp [''home'', ''dev'', ''demo''], None),
         (Execa ''npm'' [''create'', ''vite@latest'', ''demo'', ''--'', ''--template'', ''react''] home, None),
         (Execa ''npm'' [''install''] [''home'', ''dev'', ''demo''],
          Some (ExecaError ''npm'' [''install''] (Exited 1)))])
   \<and> (\<exists>f5 f6.
        createFolders quietChild [''home'', ''dev'', ''demo''] emptyDemoFs =
          (Inr (), f5, map (\<lambda>rel. (Mkdirp ([''home'', ''dev'', ''demo''] @ rel), None)) fixedDirs)
        \<and> writeFiles quietChild [''home'', ''dev'', ''demo''] f5 =
          (Inr (), f6, map (\<lambda>(rel, c). (WriteFile ([''home'', ''dev'', ''demo''] @ rel) c, None)) fixedFiles)
        \<and> scaffold quietChild demoArgs home homeFs =
          (Inr (), f6,
           [(PathExists [''home'', ''dev'', ''demo''], None), (Mkdirp [''home'', ''dev'', ''demo''], None),
            (Execa ''npm'' [''create'', ''vite@latest'', ''demo'', ''--'', ''--template'', ''react''] home, None),
            (Execa ''npm'' [''install''] [''home'', ''dev'', ''demo''], None),
            (Execa ''npm'' [''add'', ''-D'', ''sass''] [''home'', ''dev'', ''demo''], None),
            (Execa ''npm'' [''add'', ''@reduxjs/toolkit'', ''react-redux'', ''axios'', ''react-hot-toast'']
               [''home'', ''dev'', ''demo''], None)]
           @ map (\<lambda>rel. (Mkdirp ([''home'', ''dev'', ''demo''] @ rel), None)) fixedDirs
           @ map (\<lambda>(rel, c). (WriteFile ([''home'', ''dev'', ''demo''] @ rel) c, None)) fixedFiles
           @ [(ConsoleLog finalTip, None)]))"
proof -
  let ?d = "[''home'', ''dev'', ''demo'']"
  let ?bad = "failingChild [''install'']"
  let ?gc = "''npm''"
  let ?ga = "[''create'', ''vite@latest'', ''demo'', ''--'', ''--template'', ''react'']"
  have pm: "''npm'' = packageManagerOf demoArgs"
    by (simp add: demo_settings)
  have d: "?d = path_resolve home (appName demoArgs)"
    by (simp add: demo_name demo_dir)
  have tc: "targetCheck quietChild (appName demoArgs) ?d homeFs =
       (Inr (), emptyDemoFs, [(PathExists ?d, None), (Mkdirp ?d, None)])"
    by (rule quiet_targetCheck)
  have tc': "targetCheck ?bad (appName demoArgs) ?d homeFs =
       (Inr (), emptyDemoFs, [(PathExists ?d, None), (Mkdirp ?d, None)])"
    by (rule homeFs_targetCheck) (simp add: failing_env)
  have g: "generatorCommand ''npm'' (appName demoArgs) = (?gc, ?ga)"
    by (simp add: demo_name demo_generator)
  from layout_ok [of ?d emptyDemoFs quietChild] obtain f5 f6
    where cf: "createFolders quietChild ?d emptyDemoFs =
          (Inr (), f5, map (\<lambda>rel. (Mkdirp (?d @ rel), None)) fixedDirs)"
      and wf: "writeFiles quietChild ?d f5 =
          (Inr (), f6, map (\<lambda>(rel, c). (WriteFile (?d @ rel) c, None)) fixedFiles)"
    using emptyDemoFs_no_file emptyDemoFs_nothing_under quiet_env(2,3) by blast
  from layout_ok [of ?d emptyDemoFs ?bad] obtain g5 g6
    where cf': "createFolders ?bad ?d emptyDemoFs =
          (Inr (), g5, map (\<lambda>rel. (Mkdirp (?d @ rel), None)) fixedDirs)"
      and wf': "writeFiles ?bad ?d g5 =
          (Inr (), g6, map (\<lambda>(rel, c). (WriteFile (?d @ rel) c, None)) fixedFiles)"
    using emptyDemoFs_no_file emptyDemoFs_nothing_under failing_env by blast
  have b1: "child ?bad ?gc ?ga home emptyDemoFs = (Exited 0, emptyDemoFs)"
    and b2: "child ?bad ''npm'' [''install''] ?d emptyDemoFs = (Exited 1, emptyDemoFs)"
    and b3: "child ?bad ''npm'' [''add'', ''-D'', ''sass''] ?d emptyDemoFs = (Exited 0, emptyDemoFs)"
    and b4: "child ?bad ''npm'' [''add'', ''@reduxjs/toolkit'', ''react-redux'', ''axios'', ''react-hot-toast''] ?d emptyDemoFs
        = (Exited 0, emptyDemoFs)"
    by (simp_all add: failingChild_def)
  have q: "child quietChild c as wd emptyDemoFs = (Exited 0, emptyDemoFs)" for c as wd
    by (simp add: quietChild_def)
  have sel: "(if installOf demoArgs then emptyDemoFs else emptyDemoFs) = emptyDemoFs"
    by simp
  note bad = strictly_sequential [OF pm d tc' g b1 b2 b3 b4 sel [symmetric] refl cf' wf']
  note good = strictly_sequential [OF pm d tc g q q q q sel [symmetric] refl cf wf]
  from bad have r1: "scaffold ?bad demoArgs home homeFs =
       (Inl (ExecaError ''npm'' [''install''] (Exited 1)), emptyDemoFs,
        [(PathExists ?d, None), (Mkdirp ?d, None),
         (Execa ?gc ?ga home, None),
         (Execa ''npm'' [''install''] ?d, Some (ExecaError ''npm'' [''install''] (Exited 1)))])"
    by (simp add: demo_settings)
  from good have r2: "scaffold quietChild demoArgs home homeFs =
          (Inr (), f6,
           [(PathExists ?d, None), (Mkdirp ?d, None),
            (Execa ?gc ?ga home, None),
            (Execa ''npm'' [''install''] ?d, None),
            (Execa ''npm'' [''add'', ''-D'', ''sass''] ?d, None),
            (Execa ''npm'' [''add'', ''@reduxjs/toolkit'', ''react-redux'', ''axios'', ''react-hot-toast''] ?d, None)]
           @ map (\<lambda>rel. (Mkdirp (?d @ rel), None)) fixedDirs
           @ map (\<lambda>(rel, c). (WriteFile (?d @ rel) c, None)) fixedFiles
           @ [(ConsoleLog finalTip, None)])"
    by (simp add: demo_settings)
  have "failed (Exited 1)" by simp
  with tc b2 r1 cf wf r2 show ?thesis by blast
qed

section \<open>Where a run writes\<close>

lemma written_within:
  assumes "set (map fst ev) \<subseteq> S"
    and "\<And>c p. c \<in> S \<Longrightarrow> c = Mkdirp p \<or> (\<exists>s. c = WriteFile p s) \<Longrightarrow> P p"
  shows "\<forall>p \<in> set (written ev). P p"
proof
  fix p assume "p \<in> set (written ev)"
  then obtain e where e: "e \<in> set ev" and p: "p \<in> set (targetOf e)"
    by (auto simp: written_def)
  obtain c r where cr: "e = (c, r)" by (cases e)
  with e assms(1) have "c \<in> S" by force
  moreover from p cr have "c = Mkdirp p \<or> (\<exists>s. c = WriteFile p s)"
    by (cases c) auto
  ultimately show "P p" by (rule assms(2))
qed

lemma fixedDirs_nonempty: "\<forall>rel \<in> set fixedDirs. rel \<noteq> []"
  by (simp add: fixedDirs_def)

lemma fixedFiles_nonempty: "\<forall>(rel, c) \<in> set fixedFiles. rel \<noteq> []"
  using fixedFiles_parents by auto

lemma createFolders_written:
  assumes "createFolders env d fs = (r, f, ev)"
  shows "\<forall>p \<in> set (written ev). strict_prefix d p"
proof (rule written_within [OF createFolders_shape(1) [OF assms]])
  fix c p
  assume "c \<in> set (map (\<lambda>rel. Mkdirp (d @ rel)) fixedDirs)"
    and "c = Mkdirp p \<or> (\<exists>s. c = WriteFile p s)"
  then obtain rel where "rel \<in> set fixedDirs" and "p = d @ rel" by auto
  with fixedDirs_nonempty show "strict_prefix d p"
    by (auto simp: strict_prefix_def)
qed

lemma writeFiles_written:
  assumes "writeFiles env d fs = (r, f, ev)"
  shows "\<forall>p \<in> set (written ev). strict_prefix d p"
proof (rule written_within [OF writeFiles_shape(1) [OF assms]])
  fix c p
  assume "c \<in> set (map (\<lambda>(rel, c). WriteFile (d @ rel) c) fixedFiles)"
    and "c = Mkdirp p \<or> (\<exists>s. c = WriteFile p s)"
  then obtain rel s where "(rel, s) \<in> set fixedFiles" and "p = d @ rel" by auto
  with fixedFiles_nonempty show "strict_prefix d p"
    by (auto simp: strict_prefix_def)
qed

lemma mkdirp_lookup:
  assumes "mkdirp env p fs = (r, f, ev)"
  shows "lookup f q = lookup fs q \<or> (q \<in> set (ancestors p) \<and> lookup fs q = None)"
  using assms by (cases rule: mkdirp_cases) (auto simp: lookup_foldl_mkdir dest: in_set_takeD)

lemma mkdirp_under:
  assumes dirs: "\<forall>p \<in> set (ancestors d). lookup fs p = Some Dir"
    and run: "mkdirp env (d @ rel) fs = (r, f, ev)"
    and out: "\<not> strict_prefix d q"
  shows "lookup f q = lookup fs q"
proof -
  from mkdirp_lookup [OF run, of q]
  show ?thesis
  proof
    assume "q \<in> set (ancestors (d @ rel)) \<and> lookup fs q = None"
    then have q: "q \<in> set (ancestors (d @ rel))" and none: "lookup fs q = None" by blast+
    from ancestors_under [OF q] out have "q \<in> set (ancestors d)" by blast
    with dirs none show ?thesis by auto
  qed
qed

lemma promiseAll_under:
  "\<forall>p \<in> set (ancestors d). lookup fs p = Some Dir \<Longrightarrow>
   promiseAll (map (\<lambda>rel. mkdirp env (d @ rel)) rels) fs = (r, f, ev) \<Longrightarrow>
   \<not> strict_prefix d q \<Longrightarrow> lookup f q = lookup fs q"
proof (induction rels arbitrary: fs r f ev)
  case Nil
  then show ?case by simp
next
  case (Cons rel rels)
  obtain r1 f1 ev1 where m: "mkdirp env (d @ rel) fs = (r1, f1, ev1)"
    by (cases "mkdirp env (d @ rel) fs") auto
  obtain r2 f2 ev2 where rest: "promiseAll (map (\<lambda>rel. mkdirp env (d @ rel)) rels) f1 = (r2, f2, ev2)"
    by (cases "promiseAll (map (\<lambda>rel. mkdirp env (d @ rel)) rels) f1") auto
  from Cons.prems(2) m rest have f: "f = f2" by auto
  have keep: "lookup f1 q' = lookup fs q'" if "\<not> strict_prefix d q'" for q'
    using Cons.prems(1) m that by (rule mkdirp_under)
  have "\<forall>p \<in> set (ancestors d). lookup f1 p = Some Dir"
  proof
    fix p assume p: "p \<in> set (ancestors d)"
    then have "\<not> strict_prefix d p" by (auto simp: set_ancestors)
    with keep Cons.prems(1) p show "lookup f1 p = Some Dir" by simp
  qed
  from Cons.IH [OF this rest Cons.prems(3)] keep [OF Cons.prems(3)] f
  show ?case by simp
qed

lemma createFolders_under:
  assumes dirs: "\<forall>p \<in> set (ancestors d). lookup fs p = Some Dir"
    and run: "createFolders env d fs = (r, f, ev)"
    and out: "\<not> strict_prefix d q"
  shows "lookup f q = lookup fs q"
proof -
  from run have b: "bnd (promiseAll (map (\<lambda>rel. mkdirp env (d @ rel)) (butlast fixedDirs)))
       (\<lambda>_. mkdirp env (d @ last fixedDirs)) fs = (r, f, ev)"
    by (simp add: createFolders_eq)
  from b show ?thesis
  proof (cases rule: bnd_cases)
    case (rejected e)
    from promiseAll_under [OF dirs rejected(1) out] show ?thesis .
  next
    case (fulfilled x f1 e1 e2)
    have keep: "lookup f1 q' = lookup fs q'" if "\<not> strict_prefix d q'" for q'
      using dirs fulfilled(1) that by (rule promiseAll_under)
    have "\<forall>p \<in> set (ancestors d). lookup f1 p = Some Dir"
    proof
      fix p assume p: "p \<in> set (ancestors d)"
      then have "\<not> strict_prefix d p" by (auto simp: set_ancestors)
      with keep dirs p show "lookup f1 p = Some Dir" by simp
    qed
    from mkdirp_under [OF this fulfilled(2) out] keep [OF out] show ?thesis by simp
  qed
qed

lemma writeFiles_under:
  assumes run: "writeFiles env d fs = (r, f, ev)" and out: "\<not> strict_prefix d q"
  shows "lookup f q = lookup fs q"
proof -
  let ?pcs = "map (\<lambda>(rel, c). (d @ rel, c)) fixedFiles"
  from run have s: "seq (map (\<lambda>(p, c). writeFile env p c) ?pcs) fs = (r, f, ev)"
    by (simp add: writeFiles_eq comp_def case_prod_unfold)
  have "q \<notin> fst ` set ?pcs"
  proof
    assume "q \<in> fst ` set ?pcs"
    then obtain rel c where "(rel, c) \<in> set fixedFiles" and "q = d @ rel" by auto
    with fixedFiles_nonempty have "strict_prefix d q"
      by (auto simp: strict_prefix_def)
    with out show False by simp
  qed
  with s show ?thesis by (rule seq_writeFile_keeps)
qed

lemma written_folders:
  "written (map (\<lambda>rel. (Mkdirp (d @ rel), None)) rels) = map (\<lambda>rel. d @ rel) rels"
  by (induction rels) (simp_all add: written_def)

lemma written_files:
  "written (map (\<lambda>(rel, c). (WriteFile (d @ rel) c, None)) rcs) = map (\<lambda>rel. d @ rel) (map fst rcs)"
  by (induction rcs) (auto simp: written_def)

lemma targetCheck_written:
  assumes "targetCheck env nm d fs = (r, f, ev)"
  shows "\<forall>p \<in> set (written ev). p = d"
proof (cases "lookup fs d")
  case None
  obtain r1 f1 ev1 where m: "mkdirp env d fs = (r1, f1, ev1)"
    by (cases "mkdirp env d fs") auto
  with assms None have ev: "ev = (PathExists d, None) # ev1"
    by (simp add: targetCheck_missing)
  from m show ?thesis
    by (cases rule: mkdirp_cases) (use ev in \<open>auto simp: written_def\<close>)
next
  case (Some n)
  show ?thesis
  proof (cases n)
    case (File c)
    with Some assms show ?thesis
      by (auto simp: targetCheck_file written_def)
  next
    case Dir
    with Some assms show ?thesis
      by (cases "entries fs d = []")
         (auto simp: targetCheck_empty targetCheck_nonempty written_def)
  qed
qed

text \<open>
  C10. The target check of lines 12 to 17 asks for one creation at most, that of the
  target directory itself. Every directory creation and every file write that a run
  asks for after it names a path strictly below the target directory; a run that
  succeeds has asked for exactly the ten directories and the seventeen files, each below
  the target. When the target directory and its ancestors are directories, creating the
  folders and writing the files leaves every path that is not strictly below the target
  as it was, the target directory itself included.
\<close>

theorem writes_stay_under_target:
  assumes "d = path_resolve cwd (appName a)"
    and "targetCheck env (appName a) d fs = (r0, f0, ev0)"
    and "scaffold env a cwd fs = (r, f, ev)"
  shows "(\<forall>p \<in> set (written ev0). p = d)
    \<and> (\<exists>rest. ev = ev0 @ rest
           \<and> (\<forall>p \<in> set (written rest). strict_prefix d p)
           \<and> (r = Inr () \<longrightarrow> written rest = map (\<lambda>rel. d @ rel) (fixedDirs @ map fst fixedFiles)))
    \<and> (\<forall>fC r4 f5 ev4 r5 f6 ev5 q.
          (\<forall>p \<in> set (ancestors d). lookup fC p = Some Dir)
          \<and> createFolders env d fC = (r4, f5, ev4) \<and> writeFiles env d f5 = (r5, f6, ev5)
          \<and> \<not> strict_prefix d q \<longrightarrow>
          lookup f5 q = lookup fC q \<and> lookup f6 q = lookup fC q)"
proof (intro conjI)
  show "\<forall>p \<in> set (written ev0). p = d"
    using assms(2) by (rule targetCheck_written)
next
  note tc = assms(2) [unfolded assms(1)]
  let ?d = "path_resolve cwd (appName a)"
  have log: "written [(ConsoleLog finalTip, None)] = []"
    by (simp add: written_def)
  have "\<exists>rest. ev = ev0 @ rest
           \<and> (\<forall>p \<in> set (written rest). strict_prefix ?d p)
           \<and> (r = Inr () \<longrightarrow> written rest = map (\<lambda>rel. ?d @ rel) (fixedDirs @ map fst fixedFiles))"
    using assms(3)
  proof (cases rule: scaffold_run_cases)
    case (check e)
    with tc have "ev = ev0 @ []" and "r \<noteq> Inr ()" by auto
    then show ?thesis by (intro exI [of _ "[]"]) (simp add: written_def)
  next
    case (children g0 e0 e evx)
    with tc have ev: "ev = ev0 @ evx" and r: "r \<noteq> Inr ()" by auto
    from children_events(2) [OF children(2)] have "written evx = []" .
    with ev r show ?thesis by (intro exI [of _ evx]) simp
  next
    case (folders g0 e0 g1 evx e ev4)
    with tc have ev: "ev = ev0 @ (evx @ ev4)" and r: "r \<noteq> Inr ()" by auto
    from children_events(2) [OF folders(2)] have "written evx = []" .
    with createFolders_written [OF folders(3)] ev r show ?thesis
      by (intro exI [of _ "evx @ ev4"]) (simp add: written_append)
  next
    case (files g0 e0 g1 evx g4 ev4 e ev5)
    with tc have ev: "ev = ev0 @ (evx @ ev4 @ ev5)" and r: "r \<noteq> Inr ()" by auto
    from children_events(2) [OF files(2)] have "written evx = []" .
    with createFolders_written [OF files(3)] writeFiles_written [OF files(4)] ev r show ?thesis
      by (intro exI [of _ "evx @ ev4 @ ev5"]) (auto simp: written_append)
  next
    case (finished g0 e0 g1 evx g4 ev4 ev5)
    with tc have ev: "ev = ev0 @ (evx @ ev4 @ ev5 @ [(ConsoleLog finalTip, None)])" by auto
    from children_events(2) [OF finished(2)] have wx: "written evx = []" .
    from createFolders_shape(2) [OF finished(3)]
    have w4: "written ev4 = map (\<lambda>rel. ?d @ rel) fixedDirs"
      by (simp add: written_folders)
    from writeFiles_shape(2) [OF finished(4)]
    have w5: "written ev5 = map (\<lambda>rel. ?d @ rel) (map fst fixedFiles)"
      by (simp add: written_files)
    from wx w4 w5 log createFolders_written [OF finished(3)] writeFiles_written [OF finished(4)] ev
    show ?thesis
      by (intro exI [of _ "evx @ ev4 @ ev5 @ [(ConsoleLog finalTip, None)]"])
         (auto simp: written_append)
  qed
  then show "\<exists>rest. ev = ev0 @ rest
           \<and> (\<forall>p \<in> set (written rest). strict_prefix d p)
           \<and> (r = Inr () \<longrightarrow> written rest = map (\<lambda>rel. d @ rel) (fixedDirs @ map fst fixedFiles))"
    unfolding assms(1) .
next
  show "\<forall>fC r4 f5 ev4 r5 f6 ev5 q.
          (\<forall>p \<in> set (ancestors d). lookup fC p = Some Dir)
          \<and> createFolders env d fC = (r4, f5, ev4) \<and> writeFiles env d f5 = (r5, f6, ev5)
          \<and> \<not> strict_prefix d q \<longrightarrow>
          lookup f5 q = lookup fC q \<and> lookup f6 q = lookup fC q"
  proof (intro allI impI, elim conjE)
    fix fC r4 f5 ev4 r5 f6 ev5 q
    assume dirs: "\<forall>p \<in> set (ancestors d). lookup fC p = Some Dir"
      and cf: "createFolders env d fC = (r4, f5, ev4)"
      and wf: "writeFiles env d f5 = (r5, f6, ev5)"
      and out: "\<not> strict_prefix d q"
    from createFolders_under [OF dirs cf out] have a: "lookup f5 q = lookup fC q" .
    from writeFiles_under [OF wf out] have "lookup f6 q = lookup f5 q" .
    with a show "lookup f5 q = lookup fC q \<and> lookup f6 q = lookup fC q" by simp
  qed
qed

theorem writes_stay_under_target_witness:
  "targetCheck quietChild (appName demoArgs) [''home'', ''dev'', ''demo''] homeFs =
     (Inr (), emptyDemoFs,
      [(PathExists [''home'', ''dev'', ''demo''], None), (Mkdirp [''home'', ''dev'', ''demo''], None)])
   \<and> fst (scaffold quietChild demoArgs home homeFs) = Inr ()
   \<and> (\<exists>rest. snd (snd (scaffold quietChild demoArgs home homeFs)) =
         [(PathExists [''home'', ''dev'', ''demo''], None), (Mkdirp [''home'', ''dev'', ''demo''], None)] @ rest
       \<and> written rest = map (\<lambda>rel. [''home'', ''dev'', ''demo''] @ rel) (fixedDirs @ map fst fixedFiles))
   \<and> strict_prefix [''home'', ''dev'', ''demo''] ([''home'', ''dev'', ''demo''] @ [''public''])
   \<and> strict_prefix [''home'', ''dev'', ''demo''] ([''home'', ''dev'', ''demo''] @ [''src'', ''main.jsx''])
   \<and> lookup emptyDemoFs [''home''] = Some Dir
   \<and> lookup emptyDemoFs [''home'', ''dev''] = Some Dir
   \<and> lookup emptyDemoFs [''home'', ''dev'', ''demo''] = Some Dir
   \<and> \<not> strict_prefix [''home'', ''dev'', ''demo''] [''home'', ''dev'', ''demo'']
   \<and> lookup (fst (snd (createFolders quietChild [''home'', ''dev'', ''demo''] emptyDemoFs)))
        [''home'', ''dev'', ''demo''] = Some Dir
   \<and> lookup (fst (snd (writeFiles quietChild [''home'', ''dev'', ''demo'']
                  (fst (snd (createFolders quietChild [''home'', ''dev'', ''demo''] emptyDemoFs))))))
        [''home'', ''dev'', ''demo''] = Some Dir"
proof -
  let ?d = "[''home'', ''dev'', ''demo'']"
  let ?f5 = "fst (snd (createFolders quietChild ?d emptyDemoFs))"
  let ?f6 = "fst (snd (writeFiles quietChild ?d ?f5))"
  have d: "?d = path_resolve home (appName demoArgs)"
    by (simp add: demo_name demo_dir)
  have tc: "targetCheck quietChild (appName demoArgs) ?d homeFs =
       (Inr (), emptyDemoFs, [(PathExists ?d, None), (Mkdirp ?d, None)])"
    by (rule quiet_targetCheck)
  have ok: "fst (scaffold quietChild demoArgs home homeFs) = Inr ()"
    by (rule demo_run_ok) (rule demo_name)
  have run: "scaffold quietChild demoArgs home homeFs =
      (Inr (), fst (snd (scaffold quietChild demoArgs home homeFs)),
       snd (snd (scaffold quietChild demoArgs home homeFs)))"
    using ok by (rule run_triple)
  note here = writes_stay_under_target [OF d tc run]
  from here [THEN conjunct2, THEN conjunct1] obtain rest
    where ev: "snd (snd (scaffold quietChild demoArgs home homeFs)) =
         [(PathExists ?d, None), (Mkdirp ?d, None)] @ rest"
      and under: "\<forall>p \<in> set (written rest). strict_prefix ?d p"
      and all: "written rest = map (\<lambda>rel. ?d @ rel) (fixedDirs @ map fst fixedFiles)"
    by blast
  have "?d @ [''public''] \<in> set (written rest)" and "?d @ [''src'', ''main.jsx''] \<in> set (written rest)"
    unfolding all by (simp_all add: fixedDirs_def fixedFiles_def)
  with under have s1: "strict_prefix ?d (?d @ [''public''])"
    and s2: "strict_prefix ?d (?d @ [''src'', ''main.jsx''])"
    by blast+
  have l1: "lookup emptyDemoFs [''home''] = Some Dir"
    and l2: "lookup emptyDemoFs [''home'', ''dev''] = Some Dir"
    and l3: "lookup emptyDemoFs ?d = Some Dir"
    by (simp_all add: lookup_def emptyDemoFs_def)
  have anc: "set (ancestors ?d) = {[''home''], [''home'', ''dev''], ?d}"
    by (auto simp: ancestors_def upt_rec)
  have dirs: "\<forall>p \<in> set (ancestors ?d). lookup emptyDemoFs p = Some Dir"
    using l1 l2 l3 unfolding anc by simp
  have out: "\<not> strict_prefix ?d ?d"
    by simp
  have cf: "createFolders quietChild ?d emptyDemoFs =
      (fst (createFolders quietChild ?d emptyDemoFs), ?f5, snd (snd (createFolders quietChild ?d emptyDemoFs)))"
    by simp
  have wf: "writeFiles quietChild ?d ?f5 = (fst (writeFiles quietChild ?d ?f5), ?f6, snd (snd (writeFiles quietChild ?d ?f5)))"
    by simp
  from here [THEN conjunct2, THEN conjunct2, rule_format, of emptyDemoFs _ ?f5 _ _ ?f6 _ ?d] dirs cf wf out
  have "lookup ?f5 ?d = lookup emptyDemoFs ?d \<and> lookup ?f6 ?d = lookup emptyDemoFs ?d"
    by blast
  with l3 have k1: "lookup ?f5 ?d = Some Dir" and k2: "lookup ?f6 ?d = Some Dir"
    by simp_all
  from ev all have e: "\<exists>rest. snd (snd (scaffold quietChild demoArgs home homeFs)) =
         [(PathExists ?d, None), (Mkdirp ?d, None)] @ rest
       \<and> written rest = map (\<lambda>rel. ?d @ rel) (fixedDirs @ map fst fixedFiles)"
    by blast
  show ?thesis
    by (intro conjI tc ok e s1 s2 l1 l2 l3 out k1 k2)
qed

end
